theory Spec2Isabelle
  imports Main "HOL-Library.Sublist"
begin

section \<open>The tool registry of mcp-digitalocean\<close>

text \<open>
  The registry (package \<open>registry\<close>) decides which tool bundles are attached to the MCP
  server for a list of \<open>service[:category]\<close> tokens. The embedding follows the Go source
  function by function.

  \<^item> Go strings are byte strings: \<open>string\<close>.
  \<^item> A Go \<open>error\<close> is represented by its message; \<open>nil\<close> is \<open>None\<close>.
  \<^item> A Go \<open>map[string]V\<close> is a map \<open>string \<rightharpoonup> V\<close>. The order in which \<open>range\<close> visits the
    keys of a map is not fixed by the language, so every \<open>range\<close> over a map takes the
    visiting order as an argument; \<open>range_order\<close> says that such an order visits every key
    exactly once.
  \<^item> The MCP server is only written to, through \<open>AddTools\<close>: its state is the sequence of
    tool bundles added so far. A bundle is named after the constructor that builds it.
  \<^item> A slice expression out of range panics: \<open>None\<close>.
  \<^item> Logging is not modelled.
\<close>

subsection \<open>Strings\<close>

text \<open>\<open>strings.Index(s, substr)\<close>: the index of the first instance of \<open>substr\<close> in \<open>s\<close>, or -1.\<close>

fun strings_Index :: "string \<Rightarrow> string \<Rightarrow> int" where
  "strings_Index [] substr = (if substr = [] then 0 else - 1)"
| "strings_Index (c # s) substr =
     (if prefix substr (c # s) then 0
      else (let i = strings_Index s substr in if i = - 1 then - 1 else i + 1))"

text \<open>\<open>strings.Join(elems, sep)\<close>.\<close>

fun strings_Join :: "string list \<Rightarrow> string \<Rightarrow> string" where
  "strings_Join [] sep = []"
| "strings_Join [e] sep = e"
| "strings_Join (e # es) sep = e @ sep @ strings_Join es sep"

text \<open>The slice expressions \<open>s[:hi]\<close> and \<open>s[lo:]\<close>; out of range they panic.\<close>

definition slice_to :: "string \<Rightarrow> int \<Rightarrow> string option" where
  "slice_to s hi = (if 0 \<le> hi \<and> hi \<le> int (length s) then Some (take (nat hi) s) else None)"

definition slice_from :: "string \<Rightarrow> int \<Rightarrow> string option" where
  "slice_from s lo = (if 0 \<le> lo \<and> lo \<le> int (length s) then Some (drop (nat lo) s) else None)"

subsection \<open>Maps and their iteration\<close>

type_synonym error = string

type_synonym filters = "string \<rightharpoonup> string list"

text \<open>\<open>ks\<close> is an order in which \<open>range\<close> may visit the keys of \<open>m\<close>.\<close>

definition range_order :: "(string \<rightharpoonup> 'v) \<Rightarrow> string list \<Rightarrow> bool" where
  "range_order m ks = (distinct ks \<and> set ks = dom m)"

text \<open>\<open>supportedServices\<close> maps service names to their default category.\<close>

definition supportedServices :: "string \<rightharpoonup> string" where
  "supportedServices = map_of
     [(''apps'', ''basic''),
      (''networking'', ''basic''),
      (''droplets'', ''basic''),
      (''accounts'', ''basic''),
      (''spaces'', ''basic''),
      (''databases'', ''basic''),
      (''marketplace'', ''basic''),
      (''insights'', ''basic''),
      (''doks'', ''basic'')]"

subsection \<open>parseServiceFilters\<close>

text \<open>
  The body of the loop of \<open>parseServiceFilters\<close> for one token \<open>svc\<close>. Reading a missing key
  of the result map gives the nil slice, to which \<open>append\<close> adds the category.
\<close>

definition parse_token :: "filters \<Rightarrow> string \<Rightarrow> filters option" where
  "parse_token result svc =
     (let idx = strings_Index svc '':'' in
      if idx \<noteq> - 1 then
        (case slice_to svc idx of
           None \<Rightarrow> None
         | Some serviceName \<Rightarrow>
             (case slice_from svc (idx + 1) of
                None \<Rightarrow> None
              | Some category \<Rightarrow>
                  if category \<noteq> []
                  then Some (result(serviceName \<mapsto>
                         (case result serviceName of None \<Rightarrow> [] | Some cs \<Rightarrow> cs) @ [category]))
                  else Some result))
      else
        (if result svc = None then Some (result(svc \<mapsto> [''basic''])) else Some result))"

fun parse_loop :: "filters \<Rightarrow> string list \<Rightarrow> filters option" where
  "parse_loop result [] = Some result"
| "parse_loop result (svc # services) =
     (case parse_token result svc of
        None \<Rightarrow> None
      | Some result' \<Rightarrow> parse_loop result' services)"

definition parseServiceFilters :: "string list \<Rightarrow> filters option" where
  "parseServiceFilters services = parse_loop Map.empty services"

subsection \<open>hasCategory\<close>

fun hasCategory :: "string list \<Rightarrow> string \<Rightarrow> bool" where
  "hasCategory [] cat = False"
| "hasCategory (c # categories) cat =
     (if c = cat \<or> c = ''all'' then True else hasCategory categories cat)"

subsection \<open>The server and the tool bundles\<close>

text \<open>
  One constructor per tool constructor called by the registry; the two \<open>NewFirewallTool\<close>
  of the packages \<open>networking\<close> and \<open>dbaas\<close> are different bundles.
\<close>

datatype toolset =
    AppPlatformTool
  | RegionTools
  | DropletTool | DropletActionsTool | ImageTool | ImageActionsTool | SizesTool
  | LoadBalancersTool | NetworkingFirewallTool | DomainsTool | CertificateTool
  | VPCTool | VPCPeeringTool | ReservedIPTool | BYOIPPrefixTool
  | AccountTools | BalanceTools | BillingTools | InvoiceTools | KeysTool | ActionTools
  | SpacesKeysTool | CDNTool
  | OneClickTool
  | UptimeTool | UptimeCheckAlertTool | AlertPolicyTool
  | DoksTool
  | ClusterTool | PostgreSQLTool | MysqlTool | MongoTool | RedisTool | KafkaTool
  | OpenSearchTool | UserTool | DbaasFirewallTool

type_synonym server = "toolset list"

text \<open>\<open>s.AddTools(x.Tools()...)\<close> for the bundle \<open>x\<close>.\<close>

definition AddTools :: "server \<Rightarrow> toolset \<Rightarrow> server" where
  "AddTools s x = s @ [x]"

subsection \<open>The registration functions\<close>

text \<open>
  \<open>apps.NewAppPlatformTool\<close> is the only constructor that can return an error; its source
  is not part of the registry, so the error it returns (\<open>None\<close> when it succeeds) is the
  parameter \<open>appsErr\<close>.
\<close>

definition registerAppTools :: "error option \<Rightarrow> server \<Rightarrow> string list \<Rightarrow> server \<times> error option" where
  "registerAppTools appsErr s categories =
     (case appsErr of
        Some err \<Rightarrow> (s, Some (''failed to create apps tool: '' @ err))
      | None \<Rightarrow> (AddTools s AppPlatformTool, None))"

definition registerCommonTools :: "server \<Rightarrow> server \<times> error option" where
  "registerCommonTools s = (AddTools s RegionTools, None)"

definition registerDropletTools :: "server \<Rightarrow> string list \<Rightarrow> server \<times> error option" where
  "registerDropletTools s0 categories =
     (let s1 = (if hasCategory categories ''basic'' then AddTools s0 DropletTool else s0);
          s2 = (if hasCategory categories ''actions'' then AddTools s1 DropletActionsTool else s1);
          s3 = (if hasCategory categories ''images''
                then AddTools (AddTools s2 ImageTool) ImageActionsTool else s2);
          s4 = (if hasCategory categories ''sizes'' then AddTools s3 SizesTool else s3)
      in (s4, None))"

definition registerNetworkingTools :: "server \<Rightarrow> string list \<Rightarrow> server \<times> error option" where
  "registerNetworkingTools s0 categories =
     (let s1 = (if hasCategory categories ''basic'' \<or> hasCategory categories ''lb''
                then AddTools s0 LoadBalancersTool else s0);
          s2 = (if hasCategory categories ''firewall''
                then AddTools s1 NetworkingFirewallTool else s1);
          s3 = (if hasCategory categories ''dns''
                then AddTools (AddTools s2 DomainsTool) CertificateTool else s2);
          s4 = (if hasCategory categories ''vpc''
                then AddTools (AddTools s3 VPCTool) VPCPeeringTool else s3);
          s5 = (if hasCategory categories ''ip''
                then AddTools (AddTools s4 ReservedIPTool) BYOIPPrefixTool else s4)
      in (s5, None))"

definition registerAccountTools :: "server \<Rightarrow> string list \<Rightarrow> server \<times> error option" where
  "registerAccountTools s0 categories =
     (let s1 = (if hasCategory categories ''basic'' \<or> hasCategory categories ''info''
                then AddTools s0 AccountTools else s0);
          s2 = (if hasCategory categories ''billing''
                then AddTools (AddTools (AddTools s1 BalanceTools) BillingTools) InvoiceTools
                else s1);
          s3 = (if hasCategory categories ''keys'' then AddTools s2 KeysTool else s2);
          s4 = (if hasCategory categories ''actions'' then AddTools s3 ActionTools else s3)
      in (s4, None))"

definition registerSpacesTools :: "server \<Rightarrow> string list \<Rightarrow> server \<times> error option" where
  "registerSpacesTools s0 categories =
     (let s1 = (if hasCategory categories ''basic'' \<or> hasCategory categories ''keys''
                then AddTools s0 SpacesKeysTool else s0);
          s2 = (if hasCategory categories ''cdn'' then AddTools s1 CDNTool else s1)
      in (s2, None))"

definition registerMarketplaceTools :: "server \<Rightarrow> string list \<Rightarrow> server \<times> error option" where
  "registerMarketplaceTools s categories = (AddTools s OneClickTool, None)"

definition registerInsightsTools :: "server \<Rightarrow> string list \<Rightarrow> server \<times> error option" where
  "registerInsightsTools s0 categories =
     (let s1 = (if hasCategory categories ''basic'' \<or> hasCategory categories ''uptime''
                then AddTools (AddTools s0 UptimeTool) UptimeCheckAlertTool else s0);
          s2 = (if hasCategory categories ''alerts'' then AddTools s1 AlertPolicyTool else s1)
      in (s2, None))"

definition registerDOKSTools :: "server \<Rightarrow> string list \<Rightarrow> server \<times> error option" where
  "registerDOKSTools s categories = (AddTools s DoksTool, None)"

definition registerDatabasesTools :: "server \<Rightarrow> string list \<Rightarrow> server \<times> error option" where
  "registerDatabasesTools s0 categories =
     (let s1 = (if hasCategory categories ''basic'' \<or> hasCategory categories ''cluster''
                then AddTools s0 ClusterTool else s0);
          s2 = (if hasCategory categories ''postgresql'' then AddTools s1 PostgreSQLTool else s1);
          s3 = (if hasCategory categories ''mysql'' then AddTools s2 MysqlTool else s2);
          s4 = (if hasCategory categories ''mongodb'' then AddTools s3 MongoTool else s3);
          s5 = (if hasCategory categories ''redis'' then AddTools s4 RedisTool else s4);
          s6 = (if hasCategory categories ''kafka'' then AddTools s5 KafkaTool else s5);
          s7 = (if hasCategory categories ''opensearch'' then AddTools s6 OpenSearchTool else s6);
          s8 = (if hasCategory categories ''users'' then AddTools s7 UserTool else s7);
          s9 = (if hasCategory categories ''firewall'' then AddTools s8 DbaasFirewallTool else s8)
      in (s9, None))"

subsection \<open>Register\<close>

text \<open>\<open>setToString\<close>, with \<open>ks\<close> the order in which its \<open>range\<close> visits the keys of the set.\<close>

definition setToString :: "string list \<Rightarrow> string" where
  "setToString ks = strings_Join ks '',''"

text \<open>
  The \<open>switch svc\<close> of \<open>Register\<close>. It has no default case: for any other name \<open>err\<close> stays
  \<open>nil\<close> and the server is untouched.
\<close>

definition registerService ::
  "error option \<Rightarrow> string \<Rightarrow> server \<Rightarrow> string list \<Rightarrow> server \<times> error option" where
  "registerService appsErr svc s categories =
     (if svc = ''apps'' then registerAppTools appsErr s categories
      else if svc = ''networking'' then registerNetworkingTools s categories
      else if svc = ''droplets'' then registerDropletTools s categories
      else if svc = ''accounts'' then registerAccountTools s categories
      else if svc = ''spaces'' then registerSpacesTools s categories
      else if svc = ''databases'' then registerDatabasesTools s categories
      else if svc = ''marketplace'' then registerMarketplaceTools s categories
      else if svc = ''insights'' then registerInsightsTools s categories
      else if svc = ''doks'' then registerDOKSTools s categories
      else (s, None))"

text \<open>
  The three places where \<open>Register\<close> ranges over a map, with the order each one takes:
  \<open>default_iter\<close> for \<open>supportedServices\<close> when no service was given, \<open>filter_iter\<close> for the
  parsed filters, \<open>names_iter\<close> for \<open>supportedServices\<close> inside \<open>setToString\<close>.
\<close>

record schedule =
  default_iter :: "string list"
  filter_iter :: "string list"
  names_iter :: "string list"

text \<open>
  The two errors that the loop of \<open>Register\<close> builds with \<open>fmt.Errorf\<close>: for a service
  that \<open>supportedServices\<close> does not hold, where \<open>names\<close> is the order in which
  \<open>setToString\<close> visits \<open>supportedServices\<close>, and for a registration function that failed.
\<close>

definition unsupportedService :: "string \<Rightarrow> string list \<Rightarrow> error" where
  "unsupportedService svc names =
     ''unsupported service: '' @ svc @ '', supported services are: '' @ setToString names"

definition failedToRegister :: "string \<Rightarrow> error \<Rightarrow> error" where
  "failedToRegister svc err = ''failed to register '' @ svc @ '' tools: '' @ err"

text \<open>
  The loop \<open>for svc, categories := range serviceFilters\<close>, over the keys still to visit.
  A key of the order that the map does not hold is passed over (a \<open>range\<close> never yields one).
\<close>

fun register_loop ::
  "error option \<Rightarrow> string list \<Rightarrow> filters \<Rightarrow> server \<Rightarrow> string list \<Rightarrow> server \<times> error option" where
  "register_loop appsErr names serviceFilters s [] = (s, None)"
| "register_loop appsErr names serviceFilters s (svc # rest) =
     (case serviceFilters svc of
        None \<Rightarrow> register_loop appsErr names serviceFilters s rest
      | Some categories \<Rightarrow>
          if supportedServices svc = None
          then (s, Some (unsupportedService svc names))
          else (case registerService appsErr svc s categories of
                  (s', Some err) \<Rightarrow> (s', Some (failedToRegister svc err))
                | (s', None) \<Rightarrow> register_loop appsErr names serviceFilters s' rest))"

text \<open>\<open>Register\<close>: the server after the call and the error returned; \<open>None\<close> is a panic.\<close>

definition Register ::
  "error option \<Rightarrow> schedule \<Rightarrow> server \<Rightarrow> string list \<Rightarrow> (server \<times> error option) option" where
  "Register appsErr sch s servicesToActivate =
     (let servicesToActivate =
            (if length servicesToActivate = 0
             then servicesToActivate @ default_iter sch
             else servicesToActivate)
      in case parseServiceFilters servicesToActivate of
           None \<Rightarrow> None
         | Some serviceFilters \<Rightarrow>
             (case register_loop appsErr (names_iter sch) serviceFilters s (filter_iter sch) of
                (s', Some err) \<Rightarrow> Some (s', Some err)
              | (s', None) \<Rightarrow>
                  (case registerCommonTools s' of
                     (s'', Some err) \<Rightarrow>
                       Some (s'', Some (''failed to register common tools: '' @ err))
                   | (s'', None) \<Rightarrow> Some (s'', None))))"

subsection \<open>The bundles and the categories of a service\<close>

text \<open>
  The bundles that the registration function of a service can add, in the order of its
  \<open>AddTools\<close> calls.
\<close>

definition serviceToolsets :: "string \<Rightarrow> toolset list" where
  "serviceToolsets svc =
     (if svc = ''apps'' then [AppPlatformTool]
      else if svc = ''networking'' then
        [LoadBalancersTool, NetworkingFirewallTool, DomainsTool, CertificateTool,
         VPCTool, VPCPeeringTool, ReservedIPTool, BYOIPPrefixTool]
      else if svc = ''droplets'' then
        [DropletTool, DropletActionsTool, ImageTool, ImageActionsTool, SizesTool]
      else if svc = ''accounts'' then
        [AccountTools, BalanceTools, BillingTools, InvoiceTools, KeysTool, ActionTools]
      else if svc = ''spaces'' then [SpacesKeysTool, CDNTool]
      else if svc = ''databases'' then
        [ClusterTool, PostgreSQLTool, MysqlTool, MongoTool, RedisTool, KafkaTool,
         OpenSearchTool, UserTool, DbaasFirewallTool]
      else if svc = ''marketplace'' then [OneClickTool]
      else if svc = ''insights'' then [UptimeTool, UptimeCheckAlertTool, AlertPolicyTool]
      else if svc = ''doks'' then [DoksTool]
      else [])"

text \<open>
  The category names that the registration function of a service tests with \<open>hasCategory\<close>
  (\<open>"all"\<close>, which \<open>hasCategory\<close> itself tests, apart); none for apps, doks and marketplace,
  whose functions do not look at the categories.
\<close>

definition gateCategories :: "string \<Rightarrow> string list" where
  "gateCategories svc =
     (if svc = ''networking'' then [''basic'', ''lb'', ''firewall'', ''dns'', ''vpc'', ''ip'']
      else if svc = ''droplets'' then [''basic'', ''actions'', ''images'', ''sizes'']
      else if svc = ''accounts'' then [''basic'', ''info'', ''billing'', ''keys'', ''actions'']
      else if svc = ''spaces'' then [''basic'', ''keys'', ''cdn'']
      else if svc = ''databases'' then
        [''basic'', ''cluster'', ''postgresql'', ''mysql'', ''mongodb'', ''redis'', ''kafka'',
         ''opensearch'', ''users'', ''firewall'']
      else if svc = ''insights'' then [''basic'', ''uptime'', ''alerts'']
      else [])"

text \<open>The bundles that the registration function of \<open>svc\<close> adds for \<open>categories\<close>.\<close>

definition activated :: "error option \<Rightarrow> string \<Rightarrow> string list \<Rightarrow> toolset list" where
  "activated appsErr svc categories = fst (registerService appsErr svc [] categories)"

text \<open>
  One order in which a \<open>range\<close> may visit \<open>supportedServices\<close>: that of the map literal.
\<close>

definition declaredOrder :: "string list" where
  "declaredOrder =
     [''apps'', ''networking'', ''droplets'', ''accounts'', ''spaces'', ''databases'',
      ''marketplace'', ''insights'', ''doks'']"

section \<open>Properties\<close>

subsection \<open>The parser\<close>

lemma strings_Index_byte:
  "strings_Index s [c] = (if c \<in> set s then int (length (takeWhile (\<lambda>x. x \<noteq> c) s)) else - 1)"
  by (induction s) (auto simp: Let_def)

text \<open>
  Both slice expressions of the loop body are in range, so the body never panics: the
  service name is what precedes the first separator, the category what follows it.
\<close>

lemma parse_token_eq:
  "parse_token result svc =
     Some (if CHR '':'' \<in> set svc
           then (let serviceName = takeWhile (\<lambda>x. x \<noteq> CHR '':'') svc;
                     category = tl (dropWhile (\<lambda>x. x \<noteq> CHR '':'') svc)
                 in if category \<noteq> []
                    then result(serviceName \<mapsto>
                           (case result serviceName of None \<Rightarrow> [] | Some cs \<Rightarrow> cs) @ [category])
                    else result)
           else (if result svc = None then result(svc \<mapsto> [''basic'']) else result))"
proof (cases "CHR '':'' \<in> set svc")
  case False
  then show ?thesis by (simp add: parse_token_def strings_Index_byte)
next
  case True
  let ?n = "length (takeWhile (\<lambda>x. x \<noteq> CHR '':'') svc)"
  have lt: "?n < length svc"
    using True by (induction svc) auto
  have tk: "take ?n svc = takeWhile (\<lambda>x. x \<noteq> CHR '':'') svc"
    by (rule takeWhile_eq_take [symmetric])
  have dr: "drop (Suc ?n) svc = tl (dropWhile (\<lambda>x. x \<noteq> CHR '':'') svc)"
    unfolding dropWhile_eq_drop [of "\<lambda>x. x \<noteq> CHR '':''" svc] by (simp add: drop_Suc tl_drop)
  have n1: "nat (int ?n + 1) = Suc ?n" by simp
  show ?thesis
    using True lt
    by (simp add: parse_token_def strings_Index_byte slice_to_def slice_from_def Let_def tk dr n1
        del: of_nat_Suc)
qed

lemma parse_loop_total: "\<exists>m. parse_loop result ts = Some m"
  by (induction ts arbitrary: result) (auto simp: parse_token_eq)

lemma parse_loop_append:
  "parse_loop result (xs @ ys) =
     (case parse_loop result xs of None \<Rightarrow> None | Some r \<Rightarrow> parse_loop r ys)"
  by (induction xs arbitrary: result) (auto split: option.splits)

lemma parse_token_bare:
  "CHR '':'' \<notin> set t \<Longrightarrow>
     parse_token result t = Some (if result t = None then result(t \<mapsto> [''basic'']) else result)"
  by (simp add: parse_token_eq)

lemma takeWhile_until:
  "c \<notin> set a \<Longrightarrow> takeWhile (\<lambda>x. x \<noteq> c) (a @ c # b) = a"
  by (induction a) auto

lemma dropWhile_until:
  "c \<notin> set a \<Longrightarrow> dropWhile (\<lambda>x. x \<noteq> c) (a @ c # b) = c # b"
  by (induction a) auto

lemma parse_token_explicit:
  "CHR '':'' \<notin> set svc \<Longrightarrow>
     parse_token result (svc @ CHR '':'' # cat) =
       Some (if cat \<noteq> []
             then result(svc \<mapsto> (case result svc of None \<Rightarrow> [] | Some cs \<Rightarrow> cs) @ [cat])
             else result)"
  by (simp add: parse_token_eq takeWhile_until dropWhile_until Let_def)

lemma parseServiceFilters_snoc:
  "parseServiceFilters tokens = Some result \<Longrightarrow>
     parseServiceFilters (tokens @ [t]) = parse_token result t"
  by (simp add: parseServiceFilters_def parse_loop_append split: option.splits)

text \<open>
  C3. Whatever tokens came before, a token without separator gives its service the single
  default category \<open>"basic"\<close> when the service has no entry yet in the result map, and adds
  nothing when it has one; a token \<open>service:category\<close> with a non-empty category appends
  the category to the categories the service already has. So \<open>["droplets",
  "droplets:actions"]\<close> yields \<open>{"droplets": ["basic", "actions"]}\<close>.
\<close>

theorem parseServiceFilters_default_and_append:
  "\<exists>result. parseServiceFilters tokens = Some result \<and>
     (\<forall>t. CHR '':'' \<notin> set t \<longrightarrow> result t = None \<longrightarrow>
        parseServiceFilters (tokens @ [t]) = Some (result(t \<mapsto> [''basic'']))) \<and>
     (\<forall>t. CHR '':'' \<notin> set t \<longrightarrow> result t \<noteq> None \<longrightarrow>
        parseServiceFilters (tokens @ [t]) = Some result) \<and>
     (\<forall>svc cat. CHR '':'' \<notin> set svc \<longrightarrow> cat \<noteq> [] \<longrightarrow>
        parseServiceFilters (tokens @ [svc @ '':'' @ cat]) =
          Some (result(svc \<mapsto> (case result svc of None \<Rightarrow> [] | Some cs \<Rightarrow> cs) @ [cat]))) \<and>
     parseServiceFilters [''droplets'', ''droplets:actions'']
       = Some [''droplets'' \<mapsto> [''basic'', ''actions'']]"
proof -
  obtain result where r: "parseServiceFilters tokens = Some result"
    using parse_loop_total [of Map.empty tokens] by (auto simp: parseServiceFilters_def)
  have ex: "parseServiceFilters [''droplets'', ''droplets:actions'']
       = Some [''droplets'' \<mapsto> [''basic'', ''actions'']]"
    by (simp add: parseServiceFilters_def parse_token_eq)
  show ?thesis
    using r ex by (auto simp: parseServiceFilters_snoc parse_token_bare parse_token_explicit)
qed

theorem parseServiceFilters_default_and_append_witness:
  "parseServiceFilters [''droplets:actions'', ''droplets''] = Some [''droplets'' \<mapsto> [''actions'']] \<and>
   parseServiceFilters [''droplets:actions'', ''apps''] =
     Some [''droplets'' \<mapsto> [''actions''], ''apps'' \<mapsto> [''basic'']] \<and>
   parseServiceFilters [''droplets:actions'', ''droplets:images''] =
     Some [''droplets'' \<mapsto> [''actions'', ''images'']]"
proof -
  from parseServiceFilters_default_and_append [of "[''droplets:actions'']"]
  obtain result where r: "parseServiceFilters [''droplets:actions''] = Some result"
    and a: "\<And>t. CHR '':'' \<notin> set t \<Longrightarrow> result t = None \<Longrightarrow>
        parseServiceFilters ([''droplets:actions''] @ [t]) = Some (result(t \<mapsto> [''basic'']))"
    and b: "\<And>t. CHR '':'' \<notin> set t \<Longrightarrow> result t \<noteq> None \<Longrightarrow>
        parseServiceFilters ([''droplets:actions''] @ [t]) = Some result"
    and c: "\<And>svc cat. CHR '':'' \<notin> set svc \<Longrightarrow> cat \<noteq> [] \<Longrightarrow>
        parseServiceFilters ([''droplets:actions''] @ [svc @ '':'' @ cat]) =
          Some (result(svc \<mapsto> (case result svc of None \<Rightarrow> [] | Some cs \<Rightarrow> cs) @ [cat]))"
    by blast
  have res: "result = [''droplets'' \<mapsto> [''actions'']]"
    using r by (simp add: parseServiceFilters_def parse_token_eq)
  show ?thesis
    using a [of "''apps''"] b [of "''droplets''"] c [of "''droplets''" "''images''"]
    by (simp add: res)
qed

text \<open>
  C9. \<open>parseServiceFilters\<close> returns a map for every sequence of strings (no slice
  expression of it is ever out of range), and a token \<open>service:\<close>, with the separator and
  an empty category, adds no entry: the result is that of the sequence without the token.
\<close>

theorem parseServiceFilters_total_drops_empty:
  "(\<exists>result. parseServiceFilters tokens = Some result) \<and>
   (CHR '':'' \<notin> set svc \<longrightarrow>
      parseServiceFilters (before @ [svc @ '':''] @ after) = parseServiceFilters (before @ after))"
proof -
  have "\<exists>result. parseServiceFilters tokens = Some result"
    using parse_loop_total [of Map.empty tokens] by (simp add: parseServiceFilters_def)
  moreover have "parse_token r (svc @ '':'') = Some r" if "CHR '':'' \<notin> set svc" for r
    using parse_token_explicit [OF that, of r "[]"] by simp
  then have "CHR '':'' \<notin> set svc \<longrightarrow>
      parseServiceFilters (before @ [svc @ '':''] @ after) = parseServiceFilters (before @ after)"
    by (auto simp: parseServiceFilters_def parse_loop_append split: option.splits)
  ultimately show ?thesis by blast
qed

theorem parseServiceFilters_total_drops_empty_witness:
  "(\<exists>result. parseServiceFilters [''droplets:'', ''apps''] = Some result) \<and>
   parseServiceFilters [''droplets:'', ''apps''] = Some [''apps'' \<mapsto> [''basic'']] \<and>
   parseServiceFilters [''droplets:''] = Some Map.empty"
proof -
  have e: "parseServiceFilters [''apps''] = Some [''apps'' \<mapsto> [''basic'']]"
    "parseServiceFilters [] = Some Map.empty"
    by (simp_all add: parseServiceFilters_def parse_token_eq)
  show ?thesis
    using parseServiceFilters_total_drops_empty [of "[''droplets:'', ''apps'']" "''droplets''" "[]" "[''apps'']"]
      parseServiceFilters_total_drops_empty [of "[]" "''droplets''" "[]" "[]"]
    by (simp add: e)
qed

subsection \<open>hasCategory\<close>

text \<open>
  C2. For every list of category strings and every string \<open>x\<close>, \<open>hasCategory categories x\<close>
  is true if and only if \<open>x\<close> is an element of the list or \<open>"all"\<close> is an element of it.
\<close>

theorem hasCategory_iff:
  "hasCategory categories x = (x \<in> set categories \<or> ''all'' \<in> set categories)"
  by (induction categories) auto

subsection \<open>The registration functions, gate by gate\<close>

lemma hasCategory_mem:
  "hasCategory categories x = (x \<in> set categories \<or> ''all'' \<in> set categories)"
  by (induction categories) auto

lemma gate1: "(if b then AddTools s x else s) = s @ (if b then [x] else [])"
  by (simp add: AddTools_def)

lemma gate2: "(if b then AddTools (AddTools s x) y else s) = s @ (if b then [x, y] else [])"
  by (simp add: AddTools_def)

lemma gate3:
  "(if b then AddTools (AddTools (AddTools s x) y) z else s) = s @ (if b then [x, y, z] else [])"
  by (simp add: AddTools_def)

lemma registerDropletTools_gates:
  "registerDropletTools s categories =
     (s @ (if hasCategory categories ''basic'' then [DropletTool] else [])
        @ (if hasCategory categories ''actions'' then [DropletActionsTool] else [])
        @ (if hasCategory categories ''images'' then [ImageTool, ImageActionsTool] else [])
        @ (if hasCategory categories ''sizes'' then [SizesTool] else []), None)"
  unfolding registerDropletTools_def Let_def gate1 gate2 by simp

lemma registerNetworkingTools_gates:
  "registerNetworkingTools s categories =
     (s @ (if hasCategory categories ''basic'' \<or> hasCategory categories ''lb''
           then [LoadBalancersTool] else [])
        @ (if hasCategory categories ''firewall'' then [NetworkingFirewallTool] else [])
        @ (if hasCategory categories ''dns'' then [DomainsTool, CertificateTool] else [])
        @ (if hasCategory categories ''vpc'' then [VPCTool, VPCPeeringTool] else [])
        @ (if hasCategory categories ''ip'' then [ReservedIPTool, BYOIPPrefixTool] else []), None)"
  unfolding registerNetworkingTools_def Let_def gate1 gate2 by simp

lemma registerAccountTools_gates:
  "registerAccountTools s categories =
     (s @ (if hasCategory categories ''basic'' \<or> hasCategory categories ''info''
           then [AccountTools] else [])
        @ (if hasCategory categories ''billing'' then [BalanceTools, BillingTools, InvoiceTools]
           else [])
        @ (if hasCategory categories ''keys'' then [KeysTool] else [])
        @ (if hasCategory categories ''actions'' then [ActionTools] else []), None)"
  unfolding registerAccountTools_def Let_def gate1 gate3 by simp

lemma registerSpacesTools_gates:
  "registerSpacesTools s categories =
     (s @ (if hasCategory categories ''basic'' \<or> hasCategory categories ''keys''
           then [SpacesKeysTool] else [])
        @ (if hasCategory categories ''cdn'' then [CDNTool] else []), None)"
  unfolding registerSpacesTools_def Let_def gate1 by simp

lemma registerInsightsTools_gates:
  "registerInsightsTools s categories =
     (s @ (if hasCategory categories ''basic'' \<or> hasCategory categories ''uptime''
           then [UptimeTool, UptimeCheckAlertTool] else [])
        @ (if hasCategory categories ''alerts'' then [AlertPolicyTool] else []), None)"
  unfolding registerInsightsTools_def Let_def gate1 gate2 by simp

lemma registerDatabasesTools_gates:
  "registerDatabasesTools s categories =
     (s @ (if hasCategory categories ''basic'' \<or> hasCategory categories ''cluster''
           then [ClusterTool] else [])
        @ (if hasCategory categories ''postgresql'' then [PostgreSQLTool] else [])
        @ (if hasCategory categories ''mysql'' then [MysqlTool] else [])
        @ (if hasCategory categories ''mongodb'' then [MongoTool] else [])
        @ (if hasCategory categories ''redis'' then [RedisTool] else [])
        @ (if hasCategory categories ''kafka'' then [KafkaTool] else [])
        @ (if hasCategory categories ''opensearch'' then [OpenSearchTool] else [])
        @ (if hasCategory categories ''users'' then [UserTool] else [])
        @ (if hasCategory categories ''firewall'' then [DbaasFirewallTool] else []), None)"
  unfolding registerDatabasesTools_def Let_def gate1 by simp

lemmas register_gates =
  registerDropletTools_gates registerNetworkingTools_gates registerAccountTools_gates
  registerSpacesTools_gates registerInsightsTools_gates registerDatabasesTools_gates

lemma registerAppTools_eq:
  "registerAppTools appsErr s categories =
     (s @ (if appsErr = None then [AppPlatformTool] else []),
      map_option (\<lambda>err. ''failed to create apps tool: '' @ err) appsErr)"
  by (cases appsErr) (simp_all add: registerAppTools_def AddTools_def)

lemma registerService_cases:
  assumes "svc = ''apps'' \<Longrightarrow> P (registerAppTools appsErr s categories)"
    and "svc = ''networking'' \<Longrightarrow> P (registerNetworkingTools s categories)"
    and "svc = ''droplets'' \<Longrightarrow> P (registerDropletTools s categories)"
    and "svc = ''accounts'' \<Longrightarrow> P (registerAccountTools s categories)"
    and "svc = ''spaces'' \<Longrightarrow> P (registerSpacesTools s categories)"
    and "svc = ''databases'' \<Longrightarrow> P (registerDatabasesTools s categories)"
    and "svc = ''marketplace'' \<Longrightarrow> P (registerMarketplaceTools s categories)"
    and "svc = ''insights'' \<Longrightarrow> P (registerInsightsTools s categories)"
    and "svc = ''doks'' \<Longrightarrow> P (registerDOKSTools s categories)"
    and "supportedServices svc = None \<Longrightarrow> P (s, None)"
  shows "P (registerService appsErr svc s categories)"
  using assms unfolding registerService_def supportedServices_def
  by (simp split: if_splits)


lemma registerService_append:
  "registerService appsErr svc s categories =
     (s @ activated appsErr svc categories, snd (registerService appsErr svc [] categories))"
  unfolding activated_def registerService_def
  by (simp add: register_gates registerAppTools_eq
        registerMarketplaceTools_def registerDOKSTools_def AddTools_def)

lemma registerService_error:
  "snd (registerService appsErr svc s categories) =
     (if svc = ''apps'' then map_option (\<lambda>err. ''failed to create apps tool: '' @ err) appsErr
      else None)"
  by (simp add: registerService_def register_gates registerAppTools_eq
        registerMarketplaceTools_def registerDOKSTools_def)

lemma subseq_gate:
  "subseq xs ys \<Longrightarrow> subseq ((if b then ts else []) @ xs) (ts @ ys)"
  by (cases b) (auto intro: list_emb_append_mono list_emb_append2)

lemma subseq_gate_last: "subseq (if b then ts else []) ts"
  by simp

lemma registerDropletTools_subseq:
  "subseq (fst (registerDropletTools [] categories)) (serviceToolsets ''droplets'')"
proof -
  have "subseq (fst (registerDropletTools [] categories))
     ([DropletTool] @ [DropletActionsTool] @ [ImageTool, ImageActionsTool] @ [SizesTool])"
    unfolding registerDropletTools_gates fst_conv append_Nil
    by (intro subseq_gate subseq_gate_last)
  then show ?thesis by (simp add: serviceToolsets_def)
qed

lemma registerNetworkingTools_subseq:
  "subseq (fst (registerNetworkingTools [] categories)) (serviceToolsets ''networking'')"
proof -
  have "subseq (fst (registerNetworkingTools [] categories))
     ([LoadBalancersTool] @ [NetworkingFirewallTool] @ [DomainsTool, CertificateTool]
        @ [VPCTool, VPCPeeringTool] @ [ReservedIPTool, BYOIPPrefixTool])"
    unfolding registerNetworkingTools_gates fst_conv append_Nil
    by (intro subseq_gate subseq_gate_last)
  then show ?thesis by (simp add: serviceToolsets_def)
qed

lemma registerAccountTools_subseq:
  "subseq (fst (registerAccountTools [] categories)) (serviceToolsets ''accounts'')"
proof -
  have "subseq (fst (registerAccountTools [] categories))
     ([AccountTools] @ [BalanceTools, BillingTools, InvoiceTools] @ [KeysTool] @ [ActionTools])"
    unfolding registerAccountTools_gates fst_conv append_Nil
    by (intro subseq_gate subseq_gate_last)
  then show ?thesis by (simp add: serviceToolsets_def)
qed

lemma registerSpacesTools_subseq:
  "subseq (fst (registerSpacesTools [] categories)) (serviceToolsets ''spaces'')"
proof -
  have "subseq (fst (registerSpacesTools [] categories)) ([SpacesKeysTool] @ [CDNTool])"
    unfolding registerSpacesTools_gates fst_conv append_Nil
    by (intro subseq_gate subseq_gate_last)
  then show ?thesis by (simp add: serviceToolsets_def)
qed

lemma registerInsightsTools_subseq:
  "subseq (fst (registerInsightsTools [] categories)) (serviceToolsets ''insights'')"
proof -
  have "subseq (fst (registerInsightsTools [] categories))
     ([UptimeTool, UptimeCheckAlertTool] @ [AlertPolicyTool])"
    unfolding registerInsightsTools_gates fst_conv append_Nil
    by (intro subseq_gate subseq_gate_last)
  then show ?thesis by (simp add: serviceToolsets_def)
qed

lemma registerDatabasesTools_subseq:
  "subseq (fst (registerDatabasesTools [] categories)) (serviceToolsets ''databases'')"
proof -
  have "subseq (fst (registerDatabasesTools [] categories))
     ([ClusterTool] @ [PostgreSQLTool] @ [MysqlTool] @ [MongoTool] @ [RedisTool] @ [KafkaTool]
        @ [OpenSearchTool] @ [UserTool] @ [DbaasFirewallTool])"
    unfolding registerDatabasesTools_gates fst_conv append_Nil
    by (intro subseq_gate subseq_gate_last)
  then show ?thesis by (simp add: serviceToolsets_def)
qed

lemma activated_subseq: "subseq (activated appsErr svc categories) (serviceToolsets svc)"
  unfolding activated_def
proof (rule registerService_cases
    [of svc "\<lambda>r. subseq (fst r) (serviceToolsets svc)" appsErr "[]" categories])
  assume "svc = ''apps''"
  then show "subseq (fst (registerAppTools appsErr [] categories)) (serviceToolsets svc)"
    by (simp add: registerAppTools_eq serviceToolsets_def)
next
  assume "svc = ''marketplace''"
  then show "subseq (fst (registerMarketplaceTools [] categories)) (serviceToolsets svc)"
    by (simp add: registerMarketplaceTools_def AddTools_def serviceToolsets_def)
next
  assume "svc = ''doks''"
  then show "subseq (fst (registerDOKSTools [] categories)) (serviceToolsets svc)"
    by (simp add: registerDOKSTools_def AddTools_def serviceToolsets_def)
qed (simp_all add: registerDropletTools_subseq registerNetworkingTools_subseq
      registerAccountTools_subseq registerSpacesTools_subseq registerInsightsTools_subseq
      registerDatabasesTools_subseq)

lemma distinct_serviceToolsets: "distinct (serviceToolsets svc)"
  by (simp add: serviceToolsets_def)

lemma activated_subset: "set (activated appsErr svc categories) \<subseteq> set (serviceToolsets svc)"
  using activated_subseq [of appsErr svc categories] by (auto dest: list_emb_set)

lemma activated_distinct: "distinct (activated appsErr svc categories)"
  using activated_subseq [of appsErr svc categories] distinct_serviceToolsets [of svc]
  by (simp add: subseqs_distinctD)

lemma supported_names:
  "supportedServices svc \<noteq> None \<longleftrightarrow>
     svc = ''apps'' \<or> svc = ''networking'' \<or> svc = ''droplets'' \<or> svc = ''accounts'' \<or>
     svc = ''spaces'' \<or> svc = ''databases'' \<or> svc = ''marketplace'' \<or> svc = ''insights'' \<or>
     svc = ''doks''"
  by (simp add: supportedServices_def)

lemma activated_unsupported: "supportedServices svc = None \<Longrightarrow> activated appsErr svc categories = []"
  by (rule registerService_cases
      [of svc "\<lambda>r. supportedServices svc = None \<longrightarrow> fst r = []" appsErr "[]" categories, rule_format, folded activated_def])
    (simp_all add: supportedServices_def)

lemma activated_all:
  assumes "supportedServices svc \<noteq> None" and "''all'' \<in> set categories"
    and "svc = ''apps'' \<longrightarrow> appsErr = None"
  shows "activated appsErr svc categories = serviceToolsets svc"
  using assms unfolding supported_names activated_def registerService_def serviceToolsets_def
  by (elim disjE; simp add: register_gates registerAppTools_eq hasCategory_mem
        registerMarketplaceTools_def registerDOKSTools_def AddTools_def)

lemma activated_basic:
  assumes "supportedServices svc \<noteq> None" and "''basic'' \<in> set categories"
    and "svc = ''apps'' \<longrightarrow> appsErr = None"
  shows "activated appsErr svc categories \<noteq> []"
  using assms unfolding supported_names activated_def registerService_def
  by (elim disjE; simp add: register_gates registerAppTools_eq hasCategory_mem
        registerMarketplaceTools_def registerDOKSTools_def AddTools_def)

lemma activated_unrecognized:
  assumes "gateCategories svc \<noteq> []"
    and "\<forall>c\<in>set categories. c \<notin> set (gateCategories svc) \<and> c \<noteq> ''all''"
  shows "activated appsErr svc categories = []"
proof -
  have h: "\<not> hasCategory categories x" if "x \<in> set (gateCategories svc)" for x
    using assms(2) that by (auto simp: hasCategory_mem)
  from assms(1) have "svc = ''networking'' \<or> svc = ''droplets'' \<or> svc = ''accounts'' \<or>
     svc = ''spaces'' \<or> svc = ''databases'' \<or> svc = ''insights''"
    by (simp add: gateCategories_def split: if_splits)
  then show ?thesis
    using h unfolding activated_def registerService_def
    by (elim disjE; simp add: register_gates gateCategories_def)
qed

lemma activated_only_basic:
  "activated None svc [''basic''] =
     (if svc = ''apps'' then [AppPlatformTool]
      else if svc = ''networking'' then [LoadBalancersTool]
      else if svc = ''droplets'' then [DropletTool]
      else if svc = ''accounts'' then [AccountTools]
      else if svc = ''spaces'' then [SpacesKeysTool]
      else if svc = ''databases'' then [ClusterTool]
      else if svc = ''marketplace'' then [OneClickTool]
      else if svc = ''insights'' then [UptimeTool, UptimeCheckAlertTool]
      else if svc = ''doks'' then [DoksTool]
      else [])"
  unfolding activated_def registerService_def
  by (simp add: register_gates registerAppTools_eq
        registerMarketplaceTools_def registerDOKSTools_def AddTools_def)

lemma serviceToolsets_disjoint:
  "svc \<noteq> svc' \<Longrightarrow> set (serviceToolsets svc) \<inter> set (serviceToolsets svc') = {}"
  unfolding serviceToolsets_def by (auto split: if_splits)

lemma RegionTools_notin: "RegionTools \<notin> set (serviceToolsets svc)"
  unfolding serviceToolsets_def by simp

subsection \<open>The loop of Register\<close>

lemma register_loop_Cons_None:
  "serviceFilters svc = None \<Longrightarrow>
     register_loop appsErr names serviceFilters s (svc # rest) =
       register_loop appsErr names serviceFilters s rest"
  by simp

lemma register_loop_Cons_unsupported:
  "serviceFilters svc = Some categories \<Longrightarrow> supportedServices svc = None \<Longrightarrow>
     register_loop appsErr names serviceFilters s (svc # rest) =
       (s, Some (unsupportedService svc names))"
  by simp

lemma register_loop_Cons_failed:
  assumes "serviceFilters svc = Some categories" and "supportedServices svc \<noteq> None"
    and "svc = ''apps''" and "appsErr = Some ce"
  shows "register_loop appsErr names serviceFilters s (svc # rest) =
       (s, Some (failedToRegister ''apps'' (''failed to create apps tool: '' @ ce)))"
proof -
  have "registerService appsErr svc s categories = (s, Some (''failed to create apps tool: '' @ ce))"
    using assms(3,4) by (simp add: registerService_def registerAppTools_def)
  then show ?thesis using assms by auto
qed

lemma register_loop_Cons_ok:
  assumes "serviceFilters svc = Some categories" and "supportedServices svc \<noteq> None"
    and "svc = ''apps'' \<longrightarrow> appsErr = None"
  shows "register_loop appsErr names serviceFilters s (svc # rest) =
       register_loop appsErr names serviceFilters (s @ activated appsErr svc categories) rest"
proof -
  have "snd (registerService appsErr svc s categories) = None"
    using assms(3) by (auto simp: registerService_error)
  then have "registerService appsErr svc s categories = (s @ activated appsErr svc categories, None)"
    using registerService_append [of appsErr svc s categories] registerService_error [of appsErr svc "[]" categories]
      registerService_error [of appsErr svc s categories]
    by simp
  then show ?thesis using assms by auto
qed

lemma register_loop_step_cases:
  assumes "serviceFilters svc = None \<Longrightarrow> P"
    and "\<And>categories. serviceFilters svc = Some categories \<Longrightarrow> supportedServices svc = None \<Longrightarrow> P"
    and "\<And>categories ce. serviceFilters svc = Some categories \<Longrightarrow> supportedServices svc \<noteq> None \<Longrightarrow>
           svc = ''apps'' \<Longrightarrow> appsErr = Some ce \<Longrightarrow> P"
    and "\<And>categories. serviceFilters svc = Some categories \<Longrightarrow> supportedServices svc \<noteq> None \<Longrightarrow>
           svc = ''apps'' \<longrightarrow> appsErr = None \<Longrightarrow> P"
  shows P
  using assms by (cases "serviceFilters svc"; cases "supportedServices svc"; cases appsErr; cases "svc = ''apps''") auto

text \<open>What the loop adds: bundles of the services it visits, each at most once.\<close>

lemma register_loop_added:
  "\<exists>added. fst (register_loop appsErr names serviceFilters s ks) = s @ added \<and>
     set added \<subseteq> (\<Union>k\<in>set ks. case serviceFilters k of
                                  None \<Rightarrow> {} | Some categories \<Rightarrow> set (activated appsErr k categories)) \<and>
     (distinct ks \<longrightarrow> distinct added)"
proof (induction ks arbitrary: s)
  case Nil
  then show ?case by simp
next
  case (Cons k ks)
  show ?case
  proof (rule register_loop_step_cases
      [where serviceFilters = serviceFilters and svc = k and appsErr = appsErr])
    assume n: "serviceFilters k = None"
    from Cons.IH [of s] obtain added where
      "fst (register_loop appsErr names serviceFilters s ks) = s @ added"
      "set added \<subseteq> (\<Union>k\<in>set ks. case serviceFilters k of
                                  None \<Rightarrow> {} | Some categories \<Rightarrow> set (activated appsErr k categories))"
      "distinct ks \<longrightarrow> distinct added" by blast
    then show ?thesis using n by (intro exI [of _ added]) auto
  next
    fix categories
    assume "serviceFilters k = Some categories" "supportedServices k = None"
    then show ?thesis by (intro exI [of _ "[]"]) simp
  next
    fix categories ce
    assume "serviceFilters k = Some categories" "supportedServices k \<noteq> None" "k = ''apps''" "appsErr = Some ce"
    then show ?thesis
      using register_loop_Cons_failed [of serviceFilters k categories appsErr ce names s ks]
      by (intro exI [of _ "[]"]) simp
  next
    fix categories
    assume c: "serviceFilters k = Some categories" and "supportedServices k \<noteq> None"
      "k = ''apps'' \<longrightarrow> appsErr = None"
    then have step: "register_loop appsErr names serviceFilters s (k # ks) =
       register_loop appsErr names serviceFilters (s @ activated appsErr k categories) ks"
      by (rule register_loop_Cons_ok)
    let ?U = "\<Union>k\<in>set ks. case serviceFilters k of
                                  None \<Rightarrow> {} | Some categories \<Rightarrow> set (activated appsErr k categories)"
    from Cons.IH [of "s @ activated appsErr k categories"] obtain added where
      a: "fst (register_loop appsErr names serviceFilters (s @ activated appsErr k categories) ks)
           = (s @ activated appsErr k categories) @ added"
      and b: "set added \<subseteq> ?U"
      and d: "distinct ks \<longrightarrow> distinct added" by blast
    have disj: "set (activated appsErr k categories) \<inter> set added = {}" if "k \<notin> set ks"
    proof -
      have "set (activated appsErr k categories) \<inter> ?U = {}"
      proof -
        have "set (activated appsErr k categories) \<inter> set (activated appsErr k' c') = {}"
          if "k' \<in> set ks" for k' c'
        proof -
          have "k \<noteq> k'" using that \<open>k \<notin> set ks\<close> by auto
          then show ?thesis
            using serviceToolsets_disjoint [of k k'] activated_subset [of appsErr k categories]
              activated_subset [of appsErr k' c'] by blast
        qed
        then show ?thesis by (fastforce split: option.splits)
      qed
      with b show ?thesis by blast
    qed
    show ?thesis
      apply (intro exI [of _ "activated appsErr k categories @ added"])
      using a b d disj c step by (auto simp: activated_distinct)
  qed
qed

text \<open>When the loop returns no error, and what it has added then.\<close>

lemma register_loop_ok_iff:
  "snd (register_loop appsErr names serviceFilters s ks) = None \<longleftrightarrow>
     (\<forall>k\<in>set ks. \<forall>c. serviceFilters k = Some c \<longrightarrow>
        supportedServices k \<noteq> None \<and> (k = ''apps'' \<longrightarrow> appsErr = None))"
proof (induction ks arbitrary: s)
  case Nil
  then show ?case by simp
next
  case (Cons k ks)
  show ?case
  proof (rule register_loop_step_cases
      [where serviceFilters = serviceFilters and svc = k and appsErr = appsErr])
    assume "serviceFilters k = None"
    then show ?thesis using Cons.IH [of s] by simp
  next
    fix categories
    assume "serviceFilters k = Some categories" "supportedServices k = None"
    then show ?thesis by simp
  next
    fix categories ce
    assume "serviceFilters k = Some categories" "supportedServices k \<noteq> None" "k = ''apps''" "appsErr = Some ce"
    then show ?thesis
      using register_loop_Cons_failed [of serviceFilters k categories appsErr ce names s ks]
      by simp
  next
    fix categories
    assume c: "serviceFilters k = Some categories" "supportedServices k \<noteq> None"
      "k = ''apps'' \<longrightarrow> appsErr = None"
    then show ?thesis
      using register_loop_Cons_ok [of serviceFilters k categories appsErr names s ks]
        Cons.IH [of "s @ activated appsErr k categories"]
      by auto
  qed
qed

lemma register_loop_ok_result:
  "snd (register_loop appsErr names serviceFilters s ks) = None \<Longrightarrow>
     fst (register_loop appsErr names serviceFilters s ks) =
       s @ concat (map (\<lambda>k. case serviceFilters k of
                               None \<Rightarrow> [] | Some c \<Rightarrow> activated appsErr k c) ks)"
proof (induction ks arbitrary: s)
  case Nil
  then show ?case by simp
next
  case (Cons k ks)
  show ?case
  proof (rule register_loop_step_cases
      [where serviceFilters = serviceFilters and svc = k and appsErr = appsErr])
    assume "serviceFilters k = None"
    then show ?thesis using Cons.IH [of s] Cons.prems by simp
  next
    fix categories
    assume "serviceFilters k = Some categories" "supportedServices k = None"
    then show ?thesis using Cons.prems by simp
  next
    fix categories ce
    assume "serviceFilters k = Some categories" "supportedServices k \<noteq> None" "k = ''apps''" "appsErr = Some ce"
    then show ?thesis
      using register_loop_Cons_failed [of serviceFilters k categories appsErr ce names s ks] Cons.prems
      by simp
  next
    fix categories
    assume c: "serviceFilters k = Some categories" "supportedServices k \<noteq> None"
      "k = ''apps'' \<longrightarrow> appsErr = None"
    then show ?thesis
      using register_loop_Cons_ok [of serviceFilters k categories appsErr names s ks]
        Cons.IH [of "s @ activated appsErr k categories"] Cons.prems
      by auto
  qed
qed

text \<open>Which error the loop returns.\<close>

lemma register_loop_error:
  "snd (register_loop appsErr names serviceFilters s ks) = Some e \<Longrightarrow>
     (\<exists>k\<in>set ks. serviceFilters k \<noteq> None \<and> supportedServices k = None \<and>
        e = unsupportedService k names) \<or>
     (\<exists>ce. appsErr = Some ce \<and> ''apps'' \<in> set ks \<and> serviceFilters ''apps'' \<noteq> None \<and>
        e = failedToRegister ''apps'' (''failed to create apps tool: '' @ ce))"
proof (induction ks arbitrary: s)
  case Nil
  then show ?case by simp
next
  case (Cons k ks)
  show ?case
  proof (rule register_loop_step_cases
      [where serviceFilters = serviceFilters and svc = k and appsErr = appsErr])
    assume "serviceFilters k = None"
    then show ?thesis using Cons.IH [of s] Cons.prems by auto
  next
    fix categories
    assume "serviceFilters k = Some categories" "supportedServices k = None"
    then show ?thesis using Cons.prems by auto
  next
    fix categories ce
    assume "serviceFilters k = Some categories" "supportedServices k \<noteq> None" "k = ''apps''" "appsErr = Some ce"
    then show ?thesis
      using register_loop_Cons_failed [of serviceFilters k categories appsErr ce names s ks] Cons.prems
      by auto
  next
    fix categories
    assume c: "serviceFilters k = Some categories" "supportedServices k \<noteq> None"
      "k = ''apps'' \<longrightarrow> appsErr = None"
    then show ?thesis
      using register_loop_Cons_ok [of serviceFilters k categories appsErr names s ks]
        Cons.IH [of "s @ activated appsErr k categories"] Cons.prems
      by auto
  qed
qed

text \<open>
  The loop stops at the first key it cannot register: a service that \<open>supportedServices\<close>
  does not hold, or apps when its tool constructor returns an error. The services visited
  before are registered.
\<close>

lemma register_loop_first_failure:
  assumes "\<forall>j\<in>set pre. serviceFilters j \<noteq> None \<longrightarrow>
             supportedServices j \<noteq> None \<and> (j = ''apps'' \<longrightarrow> appsErr = None)"
    and "serviceFilters k = Some categories"
    and "supportedServices k = None \<or> (k = ''apps'' \<and> appsErr = Some ce)"
  shows "register_loop appsErr names serviceFilters s (pre @ k # post) =
     (s @ concat (map (\<lambda>j. case serviceFilters j of
                               None \<Rightarrow> [] | Some c \<Rightarrow> activated appsErr j c) pre),
      Some (if supportedServices k = None then unsupportedService k names
            else failedToRegister ''apps'' (''failed to create apps tool: '' @ ce)))"
  using assms(1)
proof (induction pre arbitrary: s)
  case Nil
  show ?case
  proof (cases "supportedServices k = None")
    case True
    then show ?thesis using assms(2) by simp
  next
    case False
    then have ka: "k = ''apps''" "appsErr = Some ce" using assms(3) by auto
    have "register_loop appsErr names serviceFilters s (k # post) =
       (s, Some (failedToRegister ''apps'' (''failed to create apps tool: '' @ ce)))"
      using assms(2) False ka
      by (rule register_loop_Cons_failed
          [where serviceFilters = serviceFilters and svc = k and categories = categories])
    then show ?thesis unfolding if_not_P [OF False] by (simp del: register_loop.simps)
  qed
next
  case (Cons j pre)
  show ?case
  proof (cases "serviceFilters j")
    case None
    then show ?thesis using Cons.IH [of s] Cons.prems by simp
  next
    case (Some c)
    then have ok: "supportedServices j \<noteq> None" "j = ''apps'' \<longrightarrow> appsErr = None"
      using Cons.prems by auto
    have "register_loop appsErr names serviceFilters s (j # pre @ k # post) =
       register_loop appsErr names serviceFilters (s @ activated appsErr j c) (pre @ k # post)"
      using Some ok
      by (rule register_loop_Cons_ok
          [where serviceFilters = serviceFilters and svc = j and categories = c])
    then show ?thesis
      using Cons.IH [of "s @ activated appsErr j c"] Cons.prems Some
      by (simp del: register_loop.simps)
  qed
qed

subsection \<open>Register\<close>

lemma Register_eq:
  assumes "parseServiceFilters (if tokens = [] then default_iter sch else tokens) = Some m"
  shows "Register appsErr sch s tokens =
     Some (case snd (register_loop appsErr (names_iter sch) m s (filter_iter sch)) of
             Some err \<Rightarrow> (fst (register_loop appsErr (names_iter sch) m s (filter_iter sch)), Some err)
           | None \<Rightarrow> (fst (register_loop appsErr (names_iter sch) m s (filter_iter sch)) @ [RegionTools],
                       None))"
  using assms
  by (cases "tokens = []")
     (auto simp: Register_def registerCommonTools_def AddTools_def split: prod.splits option.splits)

lemma supported_no_separator: "supportedServices k \<noteq> None \<Longrightarrow> CHR '':'' \<notin> set k"
  unfolding supported_names by (elim disjE) simp_all

lemma parse_loop_bare:
  "\<forall>t\<in>set ts. CHR '':'' \<notin> set t \<Longrightarrow>
     parse_loop result ts =
       Some (\<lambda>k. if k \<in> set ts \<and> result k = None then Some [''basic''] else result k)"
proof (induction ts arbitrary: result)
  case Nil
  then show ?case by simp
next
  case (Cons t ts)
  then show ?case by (auto simp: parse_token_bare fun_eq_iff)
qed

lemma parse_supported:
  "range_order supportedServices ks \<Longrightarrow>
     parseServiceFilters ks =
       Some (\<lambda>k. if supportedServices k \<noteq> None then Some [''basic''] else None)"
  unfolding parseServiceFilters_def range_order_def
  by (subst parse_loop_bare) (auto simp: supported_no_separator dom_def fun_eq_iff)

subsection \<open>Further facts on the registration functions and the parser\<close>

lemma activated_apps_failed: "activated (Some ce) ''apps'' categories = []"
  by (simp add: activated_def registerService_def registerAppTools_def)

lemma registerService_ok:
  "svc = ''apps'' \<longrightarrow> appsErr = None \<Longrightarrow>
     registerService appsErr svc s categories = (s @ activated appsErr svc categories, None)"
  using registerService_append [of appsErr svc s categories]
    registerService_error [of appsErr svc "[]" categories]
  by auto

lemma gate_supported:
  "gateCategories svc \<noteq> [] \<Longrightarrow>
     supportedServices svc \<noteq> None \<and> svc \<noteq> ''apps'' \<and> CHR '':'' \<notin> set svc"
  by (auto simp: gateCategories_def supportedServices_def split: if_splits)

lemma range_order_single: "range_order [k \<mapsto> v] ks \<Longrightarrow> ks = [k]"
proof -
  assume "range_order [k \<mapsto> v] ks"
  then have d: "distinct ks" and s: "set ks = {k}" by (auto simp: range_order_def)
  then show ?thesis
    by (cases ks) (auto simp: insert_eq_iff dest: subset_singletonD)
qed

lemma sublist_between: "sublist xs (ps @ xs @ ss)"
  unfolding sublist_def by blast

lemma sublist_after: "sublist xs ys \<Longrightarrow> sublist xs (ps @ ys)"
  unfolding sublist_def by (metis append.assoc)

lemma strings_Join_sublist: "n \<in> set ks \<Longrightarrow> sublist n (strings_Join ks sep)"
proof (induction ks sep rule: strings_Join.induct)
  case (1 sep)
  then show ?case by simp
next
  case (2 e sep)
  then show ?case by simp
next
  case (3 e v va sep)
  show ?case
  proof (cases "n = e")
    case True
    then show ?thesis using sublist_between [of e "[]" "sep @ strings_Join (v # va) sep"] by simp
  next
    case False
    then have "sublist n (strings_Join (v # va) sep)" using 3 by simp
    then have "sublist n (e @ sep @ strings_Join (v # va) sep)"
      by (intro sublist_after)
    then show ?thesis by simp
  qed
qed

lemma unsupportedService_names:
  "sublist svc (unsupportedService svc names)"
  "n \<in> set names \<Longrightarrow> sublist n (unsupportedService svc names)"
proof -
  show "sublist svc (unsupportedService svc names)"
    unfolding unsupportedService_def by (rule sublist_between)
  assume "n \<in> set names"
  then have "sublist n (setToString names)"
    by (simp add: setToString_def strings_Join_sublist)
  then show "sublist n (unsupportedService svc names)"
    unfolding unsupportedService_def by (intro sublist_after)
qed

lemma parse_token_keeps:
  "parse_token result t = Some r \<Longrightarrow> result k \<noteq> None \<Longrightarrow> r k \<noteq> None"
  by (auto simp: parse_token_eq Let_def split: if_splits)

lemma parse_loop_keeps:
  "parse_loop result ts = Some m \<Longrightarrow> result k \<noteq> None \<Longrightarrow> m k \<noteq> None"
proof (induction ts arbitrary: result)
  case Nil
  then show ?case by simp
next
  case (Cons t ts)
  from Cons.prems(1) obtain r where r: "parse_token result t = Some r" "parse_loop r ts = Some m"
    by (auto split: option.splits)
  then show ?case using Cons.IH [of r] Cons.prems(2) parse_token_keeps [of result t r k] by blast
qed

lemma parse_loop_holds:
  assumes "t \<in> set ts" and "CHR '':'' \<notin> set svc"
    and "t = svc \<or> (\<exists>cat. cat \<noteq> [] \<and> t = svc @ '':'' @ cat)"
    and "parse_loop result ts = Some m"
  shows "m svc \<noteq> None"
  using assms(1,4)
proof (induction ts arbitrary: result)
  case Nil
  then show ?case by simp
next
  case (Cons u us)
  from Cons.prems(2) obtain r where r: "parse_token result u = Some r" "parse_loop r us = Some m"
    by (auto split: option.splits)
  show ?case
  proof (cases "u = t")
    case True
    have "r svc \<noteq> None"
      using assms(2,3) r(1) True
      by (auto simp: parse_token_bare parse_token_explicit split: if_splits)
    then show ?thesis using parse_loop_keeps [OF r(2)] by blast
  next
    case False
    then have "t \<in> set us" using Cons.prems(1) by simp
    then show ?thesis using Cons.IH [OF _ r(2)] by blast
  qed
qed

lemma register_loop_names:
  "\<forall>k\<in>set ks. serviceFilters k \<noteq> None \<longrightarrow> supportedServices k \<noteq> None \<Longrightarrow>
     register_loop appsErr names serviceFilters s ks =
       register_loop appsErr names' serviceFilters s ks"
proof (induction ks arbitrary: s)
  case Nil
  then show ?case by simp
next
  case (Cons k ks)
  then show ?case by (auto split: option.splits prod.splits)
qed

lemma dom_supportedServices:
  "dom supportedServices =
     {''apps'', ''networking'', ''droplets'', ''accounts'', ''spaces'', ''databases'',
      ''marketplace'', ''insights'', ''doks''}"
  by (auto simp: supportedServices_def split: if_splits)

lemma basic_bundles:
  assumes "range_order supportedServices ks"
  shows "set (concat (map (\<lambda>k. case (if supportedServices k \<noteq> None then Some [''basic''] else None) of
                                 None \<Rightarrow> [] | Some c \<Rightarrow> activated None k c) ks)) =
     {AppPlatformTool, LoadBalancersTool, DropletTool, AccountTools, SpacesKeysTool,
      ClusterTool, OneClickTool, UptimeTool, UptimeCheckAlertTool, DoksTool}"
proof -
  have "set (concat (map (\<lambda>k. case (if supportedServices k \<noteq> None then Some [''basic''] else None) of
                                 None \<Rightarrow> [] | Some c \<Rightarrow> activated None k c) ks)) =
        (\<Union>k\<in>dom supportedServices. set (activated None k [''basic'']))"
    using assms by (auto simp: range_order_def split: if_splits)
  also have "\<dots> = {AppPlatformTool, LoadBalancersTool, DropletTool, AccountTools, SpacesKeysTool,
      ClusterTool, OneClickTool, UptimeTool, UptimeCheckAlertTool, DoksTool}"
    unfolding dom_supportedServices by (simp add: activated_only_basic) blast
  finally show ?thesis .
qed

lemma range_order_declaredOrder: "range_order supportedServices declaredOrder"
  by (simp add: range_order_def dom_supportedServices declaredOrder_def)

lemma range_order_rev_declaredOrder: "range_order supportedServices (rev declaredOrder)"
  using range_order_declaredOrder by (simp add: range_order_def)

lemmas eval_defs =
  Register_def parseServiceFilters_def parse_token_def slice_to_def slice_from_def Let_def
  supportedServices_def registerService_def registerCommonTools_def AddTools_def
  registerDropletTools_def registerSpacesTools_def registerAppTools_def
  unsupportedService_def failedToRegister_def setToString_def declaredOrder_def

subsection \<open>What is registered, and which error is returned\<close>

text \<open>
  C1. For a supported service and a category list that holds \<open>"all"\<close>, whatever else it
  holds, the registration function of the service adds every bundle of the service (and
  returns no error; for apps, provided its tool constructor returns none). The bundles
  added for any other category list of the same service are among those added for such a
  list.
\<close>

theorem all_activates_every_group:
  assumes "supportedServices svc \<noteq> None" and "''all'' \<in> set categories"
  shows "((svc = ''apps'' \<longrightarrow> appsErr = None) \<longrightarrow>
            registerService appsErr svc s categories = (s @ serviceToolsets svc, None)) \<and>
         set (activated appsErr svc other) \<subseteq> set (activated appsErr svc categories)"
proof (cases "svc = ''apps'' \<longrightarrow> appsErr = None")
  case True
  then have "activated appsErr svc categories = serviceToolsets svc"
    using assms by (simp add: activated_all)
  then show ?thesis
    using True registerService_ok [OF True, of s categories] activated_subset [of appsErr svc other]
    by simp
next
  case False
  then obtain ce where "svc = ''apps''" "appsErr = Some ce" by auto
  then show ?thesis by (simp add: activated_apps_failed)
qed

theorem all_activates_every_group_witness:
  "registerService None ''networking'' [] [''lb'', ''all''] =
     ([LoadBalancersTool, NetworkingFirewallTool, DomainsTool, CertificateTool,
       VPCTool, VPCPeeringTool, ReservedIPTool, BYOIPPrefixTool], None) \<and>
   set (activated None ''networking'' [''firewall'']) \<subseteq>
     set (activated None ''networking'' [''lb'', ''all'']) \<and>
   registerService None ''apps'' [] [''all''] = ([AppPlatformTool], None)"
proof -
  have "registerService None ''networking'' [] [''lb'', ''all''] =
     ([LoadBalancersTool, NetworkingFirewallTool, DomainsTool, CertificateTool,
       VPCTool, VPCPeeringTool, ReservedIPTool, BYOIPPrefixTool], None) \<and>
   set (activated None ''networking'' [''firewall'']) \<subseteq>
     set (activated None ''networking'' [''lb'', ''all''])"
    using all_activates_every_group
      [where svc = "''networking''" and categories = "[''lb'', ''all'']" and appsErr = None
         and s = "[]" and other = "[''firewall'']"]
    by (simp add: supportedServices_def serviceToolsets_def)
  moreover have "registerService None ''apps'' [] [''all''] = ([AppPlatformTool], None)"
    using all_activates_every_group
      [where svc = "''apps''" and categories = "[''all'']" and appsErr = None
         and s = "[]" and other = "[]"]
    by (simp add: supportedServices_def serviceToolsets_def)
  ultimately show ?thesis by blast
qed

text \<open>
  C7. For a supported service and a category list that holds \<open>"basic"\<close>, the registration
  function of the service adds at least one bundle (for apps, provided its tool constructor
  returns no error). The functions of doks, marketplace and apps add their single bundle
  whatever the categories are.
\<close>

theorem basic_activates_some_group:
  assumes "supportedServices svc \<noteq> None" and "''basic'' \<in> set categories"
  shows "((svc = ''apps'' \<longrightarrow> appsErr = None) \<longrightarrow>
            (\<exists>t ts. registerService appsErr svc s categories = (s @ t # ts, None))) \<and>
         registerService appsErr ''doks'' s other = (s @ [DoksTool], None) \<and>
         registerService appsErr ''marketplace'' s other = (s @ [OneClickTool], None) \<and>
         registerService None ''apps'' s other = (s @ [AppPlatformTool], None)"
proof -
  have "\<exists>t ts. registerService appsErr svc s categories = (s @ t # ts, None)"
    if ok: "svc = ''apps'' \<longrightarrow> appsErr = None"
  proof -
    have "activated appsErr svc categories \<noteq> []"
      using assms ok by (simp add: activated_basic)
    then obtain t ts where "activated appsErr svc categories = t # ts"
      by (cases "activated appsErr svc categories") auto
    then show ?thesis using registerService_ok [OF ok, of s categories] by simp
  qed
  moreover have "registerService appsErr ''doks'' s other = (s @ [DoksTool], None)"
    by (simp add: registerService_def registerDOKSTools_def AddTools_def)
  moreover have "registerService appsErr ''marketplace'' s other = (s @ [OneClickTool], None)"
    by (simp add: registerService_def registerMarketplaceTools_def AddTools_def)
  moreover have "registerService None ''apps'' s other = (s @ [AppPlatformTool], None)"
    by (simp add: registerService_def registerAppTools_def AddTools_def)
  ultimately show ?thesis by blast
qed

theorem basic_activates_some_group_witness:
  "(\<exists>t ts. registerService None ''spaces'' [] [''cdn'', ''basic''] = (t # ts, None)) \<and>
   registerService None ''doks'' [] [''bogus''] = ([DoksTool], None) \<and>
   registerService None ''marketplace'' [] [''bogus''] = ([OneClickTool], None) \<and>
   registerService None ''apps'' [] [''bogus''] = ([AppPlatformTool], None)"
  using basic_activates_some_group
    [where svc = "''spaces''" and categories = "[''cdn'', ''basic'']" and appsErr = None
       and s = "[]" and other = "[''bogus'']"]
  by (simp add: supportedServices_def)

text \<open>
  C6. Whatever the tokens are, also with a service given several times and with
  overlapping categories, one call of \<open>Register\<close> adds no bundle twice: the parsed filters
  hold one entry for each service, the loop visits each entry once, and a registration
  function adds each of its bundles at most once.
\<close>

theorem Register_adds_each_bundle_once:
  assumes "distinct (filter_iter sch)"
  shows "\<exists>s' e added. Register appsErr sch s tokens = Some (s', e) \<and> s' = s @ added \<and>
           distinct added"
proof -
  obtain m where m: "parseServiceFilters (if tokens = [] then default_iter sch else tokens) = Some m"
    using parse_loop_total [of Map.empty] by (auto simp: parseServiceFilters_def)
  let ?r = "register_loop appsErr (names_iter sch) m s (filter_iter sch)"
  obtain added where a: "fst ?r = s @ added"
    and sub: "set added \<subseteq> (\<Union>k\<in>set (filter_iter sch). case m k of
                 None \<Rightarrow> {} | Some categories \<Rightarrow> set (activated appsErr k categories))"
    and d: "distinct added"
    using register_loop_added [of appsErr "names_iter sch" m s "filter_iter sch"] assms by blast
  have "RegionTools \<notin> set added"
  proof
    assume "RegionTools \<in> set added"
    with sub obtain k c where "RegionTools \<in> set (activated appsErr k c)"
      by (auto split: option.splits)
    then show False using activated_subset [of appsErr k c] RegionTools_notin [of k] by blast
  qed
  with d have d': "distinct (added @ [RegionTools])" by simp
  show ?thesis
  proof (cases "snd ?r")
    case None
    then show ?thesis using Register_eq [OF m, of appsErr s] a d' by simp
  next
    case (Some err)
    then show ?thesis using Register_eq [OF m, of appsErr s] a d by simp
  qed
qed

theorem Register_adds_each_bundle_once_witness:
  "(\<exists>s' e. Register None \<lparr>default_iter = declaredOrder, filter_iter = [''droplets''],
                        names_iter = declaredOrder\<rparr> []
             [''droplets:basic'', ''droplets:basic'', ''droplets:all''] = Some (s', e) \<and>
          distinct s') \<and>
   Register None \<lparr>default_iter = declaredOrder, filter_iter = [''droplets''],
                        names_iter = declaredOrder\<rparr> []
             [''droplets:basic'', ''droplets:basic'', ''droplets:all''] =
     Some ([DropletTool, DropletActionsTool, ImageTool, ImageActionsTool, SizesTool, RegionTools],
           None)"
proof -
  have "\<exists>s' e. Register None \<lparr>default_iter = declaredOrder, filter_iter = [''droplets''],
                        names_iter = declaredOrder\<rparr> []
             [''droplets:basic'', ''droplets:basic'', ''droplets:all''] = Some (s', e) \<and>
          distinct s'"
    using Register_adds_each_bundle_once
      [where sch = "\<lparr>default_iter = declaredOrder, filter_iter = [''droplets''],
                          names_iter = declaredOrder\<rparr>"
         and appsErr = None and s = "[]"
         and tokens = "[''droplets:basic'', ''droplets:basic'', ''droplets:all'']"]
    by auto
  moreover have "Register None \<lparr>default_iter = declaredOrder, filter_iter = [''droplets''],
                        names_iter = declaredOrder\<rparr> []
             [''droplets:basic'', ''droplets:basic'', ''droplets:all''] =
     Some ([DropletTool, DropletActionsTool, ImageTool, ImageActionsTool, SizesTool, RegionTools],
           None)"
    by (simp add: eval_defs)
  ultimately show ?thesis by blast
qed

text \<open>
  C10. For a service whose registration function tests categories, and a category list
  none of whose tokens is a category that the function tests or \<open>"all"\<close>, the function adds
  no bundle and returns no error. So \<open>Register\<close>, for every token sequence whose parsed
  filters hold this service alone, with such a list of one or more categories, returns no
  error and adds the common bundle only; the one token \<open>service:category\<close> is the case of
  one category. When the filters hold other services too, \<open>Register\<close> returns no error
  exactly when all the others can be registered, and in no case does it add a bundle of
  the service.
\<close>

theorem unrecognized_categories_register_nothing:
  assumes "gateCategories svc \<noteq> []"
    and "\<forall>c\<in>set categories. c \<notin> set (gateCategories svc) \<and> c \<noteq> ''all''"
  shows "registerService appsErr svc s categories = (s, None) \<and>
         (\<forall>tokens. parseServiceFilters tokens = Some [svc \<mapsto> categories] \<and>
              range_order [svc \<mapsto> categories] (filter_iter sch) \<longrightarrow>
            Register appsErr sch s tokens = Some (s @ [RegionTools], None)) \<and>
         (\<forall>cat. categories = [cat] \<and> cat \<noteq> [] \<and> range_order [svc \<mapsto> [cat]] (filter_iter sch) \<longrightarrow>
            Register appsErr sch s [svc @ '':'' @ cat] = Some (s @ [RegionTools], None)) \<and>
         (\<forall>tokens m. tokens \<noteq> [] \<and> parseServiceFilters tokens = Some m \<and>
              m svc = Some categories \<and> range_order m (filter_iter sch) \<longrightarrow>
            (\<exists>s'. Register appsErr sch s tokens = Some (s', None)) =
              (\<forall>k c. k \<noteq> svc \<and> m k = Some c \<longrightarrow>
                 supportedServices k \<noteq> None \<and> (k = ''apps'' \<longrightarrow> appsErr = None))) \<and>
         (\<forall>tokens m s' e. tokens \<noteq> [] \<and> parseServiceFilters tokens = Some m \<and>
              m svc = Some categories \<and> Register appsErr sch s tokens = Some (s', e) \<longrightarrow>
            set s' \<inter> set (serviceToolsets svc) \<subseteq> set s)"
proof -
  have sup: "supportedServices svc \<noteq> None" and na: "svc \<noteq> ''apps''" and ns: "CHR '':'' \<notin> set svc"
    using gate_supported [OF assms(1)] by auto
  have act: "activated appsErr svc categories = []"
    using assms by (rule activated_unrecognized)
  have one: "registerService appsErr svc s categories = (s, None)"
    using registerService_ok [of svc appsErr s categories] na act by simp
  have gen: "Register appsErr sch s tokens = Some (s @ [RegionTools], None)"
    if pt: "parseServiceFilters tokens = Some [svc \<mapsto> categories]"
      and ro: "range_order [svc \<mapsto> categories] (filter_iter sch)" for tokens
  proof -
    have "parseServiceFilters [] \<noteq> Some [svc \<mapsto> categories]"
    proof
      assume "parseServiceFilters [] = Some [svc \<mapsto> categories]"
      then have "Map.empty svc = [svc \<mapsto> categories] svc"
        by (simp add: parseServiceFilters_def)
      then show False by simp
    qed
    then have "tokens \<noteq> []" using pt by auto
    then have p: "parseServiceFilters (if tokens = [] then default_iter sch else tokens)
               = Some [svc \<mapsto> categories]"
      using pt by simp
    have ks: "filter_iter sch = [svc]" using ro by (rule range_order_single)
    have "register_loop appsErr (names_iter sch) [svc \<mapsto> categories] s [svc] = (s, None)"
      using register_loop_Cons_ok
        [of "[svc \<mapsto> categories]" svc categories appsErr "names_iter sch" s "[]"]
        sup na act by simp
    then show ?thesis using Register_eq [OF p, of appsErr s] ks by simp
  qed
  have two: "Register appsErr sch s [svc @ '':'' @ cat] = Some (s @ [RegionTools], None)"
    if c: "categories = [cat]" "cat \<noteq> []" and ro: "range_order [svc \<mapsto> [cat]] (filter_iter sch)" for cat
  proof -
    have "parseServiceFilters [svc @ '':'' @ cat] = Some [svc \<mapsto> categories]"
      using ns c by (simp add: parseServiceFilters_def parse_token_explicit)
    then show ?thesis using gen ro c by simp
  qed
  have nil: "(\<exists>s'. Register appsErr sch s tokens = Some (s', None)) =
              (\<forall>k c. k \<noteq> svc \<and> m k = Some c \<longrightarrow>
                 supportedServices k \<noteq> None \<and> (k = ''apps'' \<longrightarrow> appsErr = None))"
    if t: "tokens \<noteq> []" "parseServiceFilters tokens = Some m" "m svc = Some categories"
      "range_order m (filter_iter sch)" for tokens m
  proof -
    have p: "parseServiceFilters (if tokens = [] then default_iter sch else tokens) = Some m"
      using t by simp
    let ?r = "register_loop appsErr (names_iter sch) m s (filter_iter sch)"
    have "(\<exists>s'. Register appsErr sch s tokens = Some (s', None)) = (snd ?r = None)"
      using Register_eq [OF p, of appsErr s] by (cases "snd ?r") auto
    also have "\<dots> = (\<forall>k\<in>set (filter_iter sch). \<forall>c. m k = Some c \<longrightarrow>
        supportedServices k \<noteq> None \<and> (k = ''apps'' \<longrightarrow> appsErr = None))"
      by (rule register_loop_ok_iff)
    also have "\<dots> = (\<forall>k c. k \<noteq> svc \<and> m k = Some c \<longrightarrow>
                 supportedServices k \<noteq> None \<and> (k = ''apps'' \<longrightarrow> appsErr = None))"
    proof -
      have d: "set (filter_iter sch) = dom m" using t(4) by (simp add: range_order_def)
      show ?thesis
      proof (intro iffI allI impI ballI)
        fix k c
        assume a: "\<forall>k\<in>set (filter_iter sch). \<forall>c. m k = Some c \<longrightarrow>
          supportedServices k \<noteq> None \<and> (k = ''apps'' \<longrightarrow> appsErr = None)"
          and b: "k \<noteq> svc \<and> m k = Some c"
        from b have "k \<in> set (filter_iter sch)" unfolding d by blast
        with a b show "supportedServices k \<noteq> None \<and> (k = ''apps'' \<longrightarrow> appsErr = None)"
          by blast
      next
        fix k c
        assume a: "\<forall>k c. k \<noteq> svc \<and> m k = Some c \<longrightarrow>
                 supportedServices k \<noteq> None \<and> (k = ''apps'' \<longrightarrow> appsErr = None)"
          and b: "m k = Some c"
        show "supportedServices k \<noteq> None \<and> (k = ''apps'' \<longrightarrow> appsErr = None)"
        proof (cases "k = svc")
          case True
          then show ?thesis using sup na by blast
        next
          case False
          then show ?thesis using a b by blast
        qed
      qed
    qed
    finally show ?thesis .
  qed
  have three: "set s' \<inter> set (serviceToolsets svc) \<subseteq> set s"
    if t: "tokens \<noteq> []" "parseServiceFilters tokens = Some m" "m svc = Some categories"
      "Register appsErr sch s tokens = Some (s', e)" for tokens m s' e
  proof -
    have p: "parseServiceFilters (if tokens = [] then default_iter sch else tokens) = Some m"
      using t by simp
    let ?r = "register_loop appsErr (names_iter sch) m s (filter_iter sch)"
    obtain added where a: "fst ?r = s @ added"
      and sub: "set added \<subseteq> (\<Union>k\<in>set (filter_iter sch). case m k of
                 None \<Rightarrow> {} | Some categories \<Rightarrow> set (activated appsErr k categories))"
      using register_loop_added [of appsErr "names_iter sch" m s "filter_iter sch"] by blast
    have "x \<notin> set (serviceToolsets svc)" if "x \<in> set added" for x
    proof -
      from sub that obtain k c where k: "m k = Some c" "x \<in> set (activated appsErr k c)"
        by (auto split: option.splits)
      have "k \<noteq> svc" using k act t(3) by auto
      then show ?thesis
        using serviceToolsets_disjoint [of k svc] activated_subset [of appsErr k c] k(2) by blast
    qed
    then have "set added \<inter> set (serviceToolsets svc) = {}" by blast
    moreover have "set s' \<subseteq> set s \<union> set added \<union> {RegionTools}"
      using Register_eq [OF p, of appsErr s] t(4) a by (auto split: option.splits)
    ultimately show ?thesis using RegionTools_notin [of svc] by blast
  qed
  have gen': "\<forall>tokens. parseServiceFilters tokens = Some [svc \<mapsto> categories] \<and>
              range_order [svc \<mapsto> categories] (filter_iter sch) \<longrightarrow>
            Register appsErr sch s tokens = Some (s @ [RegionTools], None)"
    using gen by blast
  have two': "\<forall>cat. categories = [cat] \<and> cat \<noteq> [] \<and> range_order [svc \<mapsto> [cat]] (filter_iter sch) \<longrightarrow>
            Register appsErr sch s [svc @ '':'' @ cat] = Some (s @ [RegionTools], None)"
    using two by blast
  have nil': "\<forall>tokens m. tokens \<noteq> [] \<and> parseServiceFilters tokens = Some m \<and>
              m svc = Some categories \<and> range_order m (filter_iter sch) \<longrightarrow>
            (\<exists>s'. Register appsErr sch s tokens = Some (s', None)) =
              (\<forall>k c. k \<noteq> svc \<and> m k = Some c \<longrightarrow>
                 supportedServices k \<noteq> None \<and> (k = ''apps'' \<longrightarrow> appsErr = None))"
    by (intro allI impI, elim conjE, rule nil)
  have three': "\<forall>tokens m s' e. tokens \<noteq> [] \<and> parseServiceFilters tokens = Some m \<and>
              m svc = Some categories \<and> Register appsErr sch s tokens = Some (s', e) \<longrightarrow>
            set s' \<inter> set (serviceToolsets svc) \<subseteq> set s"
    by (intro allI impI, elim conjE, rule three)
  from one gen' two' nil' three' show ?thesis by simp
qed

theorem unrecognized_categories_register_nothing_witness:
  "registerService None ''droplets'' [] [''bogus'', ''foo''] = ([], None) \<and>
   Register None \<lparr>default_iter = declaredOrder, filter_iter = [''droplets''],
                  names_iter = declaredOrder\<rparr> [] [''droplets:bogus'', ''droplets:foo'']
     = Some ([RegionTools], None) \<and>
   (\<exists>s'. Register None \<lparr>default_iter = declaredOrder, filter_iter = [''spaces'', ''droplets''],
                  names_iter = declaredOrder\<rparr> [] [''droplets:bogus'', ''droplets:foo'', ''spaces'']
     = Some (s', None))"
proof -
  let ?sch = "\<lparr>default_iter = declaredOrder, filter_iter = [''droplets''],
                  names_iter = declaredOrder\<rparr>"
  let ?sch2 = "\<lparr>default_iter = declaredOrder, filter_iter = [''spaces'', ''droplets''],
                  names_iter = declaredOrder\<rparr>"
  let ?m = "[''droplets'' \<mapsto> [''bogus'', ''foo''], ''spaces'' \<mapsto> [''basic'']]"
  have g: "gateCategories ''droplets'' \<noteq> []"
    "\<forall>c\<in>set [''bogus'', ''foo'']. c \<notin> set (gateCategories ''droplets'') \<and> c \<noteq> ''all''"
    by (simp_all add: gateCategories_def)
  have p1: "parseServiceFilters [''droplets:bogus'', ''droplets:foo'']
      = Some [''droplets'' \<mapsto> [''bogus'', ''foo'']]"
    by (simp add: parseServiceFilters_def parse_token_def slice_to_def slice_from_def Let_def)
  have r1: "range_order [''droplets'' \<mapsto> [''bogus'', ''foo'']] (filter_iter ?sch)"
    by (simp add: range_order_def)
  have p2: "parseServiceFilters [''droplets:bogus'', ''droplets:foo'', ''spaces''] = Some ?m"
    by (simp add: parseServiceFilters_def parse_token_def slice_to_def slice_from_def Let_def)
  have r2: "range_order ?m (filter_iter ?sch2)"
    by (auto simp: range_order_def)
  have others: "\<forall>k c. k \<noteq> ''droplets'' \<and> ?m k = Some c \<longrightarrow>
                 supportedServices k \<noteq> None \<and> (k = ''apps'' \<longrightarrow> None = (None :: error option))"
    by (auto simp: supportedServices_def split: if_splits)
  note th = unrecognized_categories_register_nothing [OF g, of None "[]"]
  have a: "registerService None ''droplets'' [] [''bogus'', ''foo''] = ([], None)"
    using th [of ?sch] by (rule conjunct1)
  have b: "Register None ?sch [] [''droplets:bogus'', ''droplets:foo''] = Some ([RegionTools], None)"
    using th [of ?sch, THEN conjunct2, THEN conjunct1, THEN spec, THEN mp, OF conjI [OF p1 r1]]
    by simp
  have m: "?m ''droplets'' = Some [''bogus'', ''foo'']" by simp
  have ne: "[''droplets:bogus'', ''droplets:foo'', ''spaces''] \<noteq> []" by simp
  have "(\<exists>s'. Register None ?sch2 [] [''droplets:bogus'', ''droplets:foo'', ''spaces''] = Some (s', None)) =
              (\<forall>k c. k \<noteq> ''droplets'' \<and> ?m k = Some c \<longrightarrow>
                 supportedServices k \<noteq> None \<and> (k = ''apps'' \<longrightarrow> None = (None :: error option)))"
    by (rule th [of ?sch2, THEN conjunct2, THEN conjunct2, THEN conjunct2, THEN conjunct1,
          THEN spec, THEN spec, THEN mp, OF conjI [OF ne conjI [OF p2 conjI [OF m r2]]]])
  then have c: "\<exists>s'. Register None ?sch2 [] [''droplets:bogus'', ''droplets:foo'', ''spaces''] = Some (s', None)"
    using others by (rule iffD2)
  show ?thesis using a b c by (intro conjI)
qed

text \<open>
  C5. \<open>Register\<close> returns no error exactly when every service of the parsed filters is
  supported and its registration function returns no error (only that of apps can return
  one); the server then holds, after what it held before, the bundles of these services
  in the order of the iteration and, last, the common bundle. This holds for every token
  sequence, the empty one (for which the services are those of \<open>supportedServices\<close>)
  included.
\<close>

theorem Register_nil_iff_all_registered:
  assumes "parseServiceFilters (if tokens = [] then default_iter sch else tokens) = Some m"
    and "range_order m (filter_iter sch)"
  shows "(Register appsErr sch s tokens = Some (s', None)) =
           ((\<forall>svc categories. m svc = Some categories \<longrightarrow>
               supportedServices svc \<noteq> None \<and> (svc = ''apps'' \<longrightarrow> appsErr = None)) \<and>
            s' = s @ concat (map (\<lambda>svc. case m svc of
                                           None \<Rightarrow> [] | Some c \<Rightarrow> activated appsErr svc c)
                              (filter_iter sch)) @ [RegionTools])"
proof -
  let ?r = "register_loop appsErr (names_iter sch) m s (filter_iter sch)"
  have ok: "(snd ?r = None) =
     (\<forall>svc categories. m svc = Some categories \<longrightarrow>
        supportedServices svc \<noteq> None \<and> (svc = ''apps'' \<longrightarrow> appsErr = None))"
    unfolding register_loop_ok_iff
    using assms(2) by (auto simp: range_order_def dom_def)
  show ?thesis
  proof (cases "snd ?r")
    case None
    then show ?thesis
      using Register_eq [OF assms(1), of appsErr s] ok register_loop_ok_result [OF None] by auto
  next
    case (Some err)
    then show ?thesis
      using Register_eq [OF assms(1), of appsErr s] ok by auto
  qed
qed

theorem Register_nil_iff_all_registered_witness:
  "Register None \<lparr>default_iter = declaredOrder, filter_iter = [''spaces'', ''droplets''],
                  names_iter = declaredOrder\<rparr> [] [''droplets:actions'', ''spaces'']
     = Some ([SpacesKeysTool, DropletActionsTool, RegionTools], None) \<and>
   Register None \<lparr>default_iter = declaredOrder, filter_iter = rev declaredOrder,
                  names_iter = declaredOrder\<rparr> [] []
     = Some ([DoksTool, UptimeTool, UptimeCheckAlertTool, OneClickTool, ClusterTool,
              SpacesKeysTool, AccountTools, DropletTool, LoadBalancersTool, AppPlatformTool,
              RegionTools], None)"
proof -
  let ?sch = "\<lparr>default_iter = declaredOrder, filter_iter = [''spaces'', ''droplets''],
                  names_iter = declaredOrder\<rparr>"
  let ?m = "[''droplets'' \<mapsto> [''actions''], ''spaces'' \<mapsto> [''basic'']]"
  have h1: "parseServiceFilters (if [''droplets:actions'', ''spaces''] = [] then default_iter ?sch
              else [''droplets:actions'', ''spaces'']) = Some ?m"
    by (simp add: parseServiceFilters_def parse_token_def slice_to_def slice_from_def Let_def)
  have h2: "range_order ?m (filter_iter ?sch)"
    by (auto simp: range_order_def)
  have a1: "activated None ''spaces'' [''basic''] = [SpacesKeysTool]"
    by (simp add: activated_only_basic)
  have a2: "activated None ''droplets'' [''actions''] = [DropletActionsTool]"
    by (simp add: activated_def registerService_def registerDropletTools_def AddTools_def)
  have one: "Register None ?sch [] [''droplets:actions'', ''spaces'']
     = Some ([SpacesKeysTool, DropletActionsTool, RegionTools], None)"
    unfolding Register_nil_iff_all_registered [OF h1 h2, of None "[]"]
    by (auto simp: a1 a2 supportedServices_def split: if_splits)
  let ?sch0 = "\<lparr>default_iter = declaredOrder, filter_iter = rev declaredOrder,
                  names_iter = declaredOrder\<rparr>"
  let ?m0 = "\<lambda>k. if supportedServices k \<noteq> None then Some [''basic''] else None"
  have g1: "parseServiceFilters (if [] = [] then default_iter ?sch0 else []) = Some ?m0"
    using parse_supported [OF range_order_declaredOrder] by simp
  have g2: "range_order ?m0 (filter_iter ?sch0)"
    using range_order_rev_declaredOrder by (auto simp: range_order_def dom_def split: if_splits)
  have two: "Register None ?sch0 [] []
     = Some ([DoksTool, UptimeTool, UptimeCheckAlertTool, OneClickTool, ClusterTool,
              SpacesKeysTool, AccountTools, DropletTool, LoadBalancersTool, AppPlatformTool,
              RegionTools], None)"
    unfolding Register_nil_iff_all_registered [OF g1 g2, of None "[]"]
    by (simp add: declaredOrder_def activated_only_basic supportedServices_def)
  show ?thesis using one two by blast
qed

text \<open>
  C8. \<open>Register\<close> with no token does what \<open>Register\<close> does with every known service name
  listed once without category: both calls work on the same filters, every service with
  the category \<open>"basic"\<close>, so with the same iteration order they return the same result.
  When the tool constructor of apps returns no error, both return no error, whatever the
  iteration orders are, and the server holds the same set of bundles after both: what it
  held before, the bundles of \<open>"basic"\<close> of the nine services and the common bundle. When
  the constructor returns an error, both return that error.
\<close>

theorem zero_tokens_same_as_all_names:
  assumes "range_order supportedServices (default_iter sch)"
    and "range_order supportedServices (filter_iter sch)"
    and "range_order supportedServices names"
    and "range_order supportedServices (filter_iter sch')"
  shows "(filter_iter sch' = filter_iter sch \<longrightarrow>
            Register appsErr sch' s names = Register appsErr sch s []) \<and>
         (appsErr = None \<longrightarrow>
            (\<exists>s1 s2. Register appsErr sch s [] = Some (s1, None) \<and>
               Register appsErr sch' s names = Some (s2, None) \<and>
               set s1 = set s2 \<and>
               set s1 = set s \<union>
                 {AppPlatformTool, LoadBalancersTool, DropletTool, AccountTools, SpacesKeysTool,
                  ClusterTool, OneClickTool, UptimeTool, UptimeCheckAlertTool, DoksTool,
                  RegionTools})) \<and>
         (\<forall>ce. appsErr = Some ce \<longrightarrow>
            (\<exists>s1 s2. Register appsErr sch s [] =
                 Some (s1, Some (failedToRegister ''apps'' (''failed to create apps tool: '' @ ce))) \<and>
               Register appsErr sch' s names =
                 Some (s2, Some (failedToRegister ''apps'' (''failed to create apps tool: '' @ ce)))))"
proof -
  define m :: filters where
    "m = (\<lambda>k. if supportedServices k \<noteq> None then Some [''basic''] else None)"
  have "''apps'' \<in> set names"
    using assms(3) by (simp add: range_order_def dom_supportedServices)
  then have ne: "names \<noteq> []"
    by (cases names) simp_all
  have p0: "parseServiceFilters (if [] = [] then default_iter sch else []) = Some m"
    using parse_supported [OF assms(1)] by (simp add: m_def)
  have p1: "parseServiceFilters (if names = [] then default_iter sch' else names) = Some m"
    using parse_supported [OF assms(3)] ne by (simp add: m_def)
  have sup: "\<forall>k\<in>set ks. m k \<noteq> None \<longrightarrow> supportedServices k \<noteq> None" for ks
    by (simp add: m_def)
  have names: "register_loop appsErr (names_iter sch') m s ks =
      register_loop appsErr (names_iter sch) m s ks" for ks
    by (rule register_loop_names [OF sup])
  have same: "Register appsErr sch' s names = Register appsErr sch s []"
    if "filter_iter sch' = filter_iter sch"
    unfolding Register_eq [OF p0, of appsErr s] Register_eq [OF p1, of appsErr s] that names ..
  let ?c = "\<lambda>sc. concat (map (\<lambda>k. case m k of None \<Rightarrow> [] | Some c \<Rightarrow> activated None k c)
                           (filter_iter sc))"
  let ?B = "{AppPlatformTool, LoadBalancersTool, DropletTool, AccountTools, SpacesKeysTool,
      ClusterTool, OneClickTool, UptimeTool, UptimeCheckAlertTool, DoksTool}"
  have good: "\<exists>s1 s2. Register appsErr sch s [] = Some (s1, None) \<and>
               Register appsErr sch' s names = Some (s2, None) \<and>
               set s1 = set s2 \<and>
               set s1 = set s \<union>
                 {AppPlatformTool, LoadBalancersTool, DropletTool, AccountTools, SpacesKeysTool,
                  ClusterTool, OneClickTool, UptimeTool, UptimeCheckAlertTool, DoksTool,
                  RegionTools}"
    if a: "appsErr = None"
  proof -
    have ok: "snd (register_loop None n m s ks) = None" for n ks
      unfolding register_loop_ok_iff by (simp add: m_def)
    have r: "Register None sc s tk = Some (s @ ?c sc @ [RegionTools], None)"
      if "parseServiceFilters (if tk = [] then default_iter sc else tk) = Some m" for sc tk
      using Register_eq [OF that, of None s] ok register_loop_ok_result [OF ok] by simp
    have b0: "set (?c sch) = ?B" unfolding m_def using assms(2) by (rule basic_bundles)
    have b1: "set (?c sch') = ?B" unfolding m_def using assms(4) by (rule basic_bundles)
    have u: "set (s @ ?c sc @ [RegionTools]) = set s \<union> insert RegionTools (set (?c sc))" for sc
      by simp
    have t: "insert RegionTools ?B = {AppPlatformTool, LoadBalancersTool, DropletTool, AccountTools, SpacesKeysTool,
                  ClusterTool, OneClickTool, UptimeTool, UptimeCheckAlertTool, DoksTool,
                  RegionTools}"
      by blast
    have "Register None sch s [] = Some (s @ ?c sch @ [RegionTools], None)"
      by (rule r [OF p0])
    moreover have "Register None sch' s names = Some (s @ ?c sch' @ [RegionTools], None)"
      by (rule r [OF p1])
    moreover have "set (s @ ?c sch @ [RegionTools]) = set (s @ ?c sch' @ [RegionTools])"
      unfolding u b0 b1 ..
    moreover have "set (s @ ?c sch @ [RegionTools]) = set s \<union>
                 {AppPlatformTool, LoadBalancersTool, DropletTool, AccountTools, SpacesKeysTool,
                  ClusterTool, OneClickTool, UptimeTool, UptimeCheckAlertTool, DoksTool,
                  RegionTools}"
      unfolding u b0 t ..
    ultimately show ?thesis unfolding a by blast
  qed
  have bad: "\<exists>s1 s2. Register appsErr sch s [] =
                 Some (s1, Some (failedToRegister ''apps'' (''failed to create apps tool: '' @ ce))) \<and>
               Register appsErr sch' s names =
                 Some (s2, Some (failedToRegister ''apps'' (''failed to create apps tool: '' @ ce)))"
    if a: "appsErr = Some ce" for ce
  proof -
    have e: "snd (register_loop appsErr n m s ks) =
        Some (failedToRegister ''apps'' (''failed to create apps tool: '' @ ce))"
      if ks: "range_order supportedServices ks" for n ks
    proof -
      have in_ks: "''apps'' \<in> set ks"
        using ks by (simp add: range_order_def dom_supportedServices)
      have "supportedServices ''apps'' \<noteq> None"
        unfolding supported_names by simp
      then have sa: "m ''apps'' = Some [''basic'']"
        unfolding m_def by (rule if_P)
      have "\<not> (\<forall>k\<in>set ks. \<forall>c. m k = Some c \<longrightarrow>
                supportedServices k \<noteq> None \<and> (k = ''apps'' \<longrightarrow> appsErr = None))"
        using in_ks sa a by (intro notI) (drule bspec [of _ _ "''apps''"], simp_all)
      then have "snd (register_loop appsErr n m s ks) \<noteq> None"
        unfolding register_loop_ok_iff .
      then obtain e where e: "snd (register_loop appsErr n m s ks) = Some e" by blast
      have "\<not> (\<exists>k\<in>set ks. m k \<noteq> None \<and> supportedServices k = None \<and>
                e = unsupportedService k n)"
        by (simp add: m_def)
      with register_loop_error [OF e] a e show ?thesis by blast
    qed
    show ?thesis
      using Register_eq [OF p0, of appsErr s] Register_eq [OF p1, of appsErr s]
        e [OF assms(2)] e [OF assms(4)]
      by simp
  qed
  show ?thesis using same good bad by blast
qed

theorem zero_tokens_same_as_all_names_witness:
  "Register None \<lparr>default_iter = declaredOrder, filter_iter = declaredOrder,
                  names_iter = declaredOrder\<rparr> [] (rev declaredOrder) =
   Register None \<lparr>default_iter = declaredOrder, filter_iter = declaredOrder,
                  names_iter = declaredOrder\<rparr> [] [] \<and>
   (\<exists>s1 s2.
      Register None \<lparr>default_iter = declaredOrder, filter_iter = declaredOrder,
                     names_iter = declaredOrder\<rparr> [] [] = Some (s1, None) \<and>
      Register None \<lparr>default_iter = declaredOrder, filter_iter = rev declaredOrder,
                     names_iter = declaredOrder\<rparr> [] (rev declaredOrder) = Some (s2, None) \<and>
      set s1 = set s2 \<and>
      set s1 = {AppPlatformTool, LoadBalancersTool, DropletTool, AccountTools, SpacesKeysTool,
                ClusterTool, OneClickTool, UptimeTool, UptimeCheckAlertTool, DoksTool,
                RegionTools}) \<and>
   (\<exists>s1 s2.
      Register (Some ''no token'') \<lparr>default_iter = declaredOrder, filter_iter = declaredOrder,
                     names_iter = declaredOrder\<rparr> [] [] =
        Some (s1, Some ''failed to register apps tools: failed to create apps tool: no token'') \<and>
      Register (Some ''no token'') \<lparr>default_iter = declaredOrder, filter_iter = rev declaredOrder,
                     names_iter = declaredOrder\<rparr> [] (rev declaredOrder) =
        Some (s2, Some ''failed to register apps tools: failed to create apps tool: no token''))"
proof -
  let ?a = "\<lparr>default_iter = declaredOrder, filter_iter = declaredOrder,
                     names_iter = declaredOrder\<rparr>"
  let ?b = "\<lparr>default_iter = declaredOrder, filter_iter = rev declaredOrder,
                     names_iter = declaredOrder\<rparr>"
  have d: "range_order supportedServices (default_iter ?a)"
     "range_order supportedServices (filter_iter ?a)"
     "range_order supportedServices (filter_iter ?b)"
    using range_order_declaredOrder range_order_rev_declaredOrder by simp_all
  note r = range_order_rev_declaredOrder
  have one: "Register None ?a [] (rev declaredOrder) = Register None ?a [] []"
    using zero_tokens_same_as_all_names [OF d(1) d(2) r d(2), of None "[]"] by simp
  have two: "\<exists>s1 s2. Register None ?a [] [] = Some (s1, None) \<and>
      Register None ?b [] (rev declaredOrder) = Some (s2, None) \<and>
      set s1 = set s2 \<and>
      set s1 = {AppPlatformTool, LoadBalancersTool, DropletTool, AccountTools, SpacesKeysTool,
                ClusterTool, OneClickTool, UptimeTool, UptimeCheckAlertTool, DoksTool,
                RegionTools}"
    using zero_tokens_same_as_all_names [OF d(1) d(2) r d(3), of None "[]"] by simp
  have three: "\<exists>s1 s2.
      Register (Some ''no token'') ?a [] [] =
        Some (s1, Some ''failed to register apps tools: failed to create apps tool: no token'') \<and>
      Register (Some ''no token'') ?b [] (rev declaredOrder) =
        Some (s2, Some ''failed to register apps tools: failed to create apps tool: no token'')"
    using zero_tokens_same_as_all_names [OF d(1) d(2) r d(3), of "Some ''no token''" "[]"]
    by (simp add: failedToRegister_def)
  show ?thesis using one two three by blast
qed

text \<open>
  C4 (as the code has it). When the parsed filters hold a service that \<open>supportedServices\<close>
  does not, which they do when a token of the sequence, at any position, is the bare name
  of such a service or the name with a non-empty category, \<open>Register\<close> returns an error.
  The loop registers the services it visits until it reaches the first that it cannot
  register, and stops there. If that one is a service that \<open>supportedServices\<close> does not
  hold, the error is that of an unsupported service, and its message holds the name of
  this service and the name of every supported service. Otherwise that one is apps, whose
  tool constructor returned an error, and the error is that one, wrapped. The server gains
  the bundles of the services visited before, all of them supported, and not the common
  bundle.
\<close>

theorem unknown_service_error:
  assumes "t \<in> set tokens"
    and "t = bad \<or> (\<exists>cat. cat \<noteq> [] \<and> t = bad @ '':'' @ cat)"
    and "CHR '':'' \<notin> set bad"
    and "supportedServices bad = None"
    and "parseServiceFilters tokens = Some m"
    and "range_order m (filter_iter sch)"
    and "range_order supportedServices (names_iter sch)"
  shows "m bad \<noteq> None \<and>
    (\<exists>pre k post e added.
       filter_iter sch = pre @ k # post \<and>
       (\<forall>j\<in>set pre. supportedServices j \<noteq> None \<and> (j = ''apps'' \<longrightarrow> appsErr = None)) \<and>
       (supportedServices k = None \<or> (k = ''apps'' \<and> appsErr \<noteq> None)) \<and>
       added = concat (map (\<lambda>j. case m j of None \<Rightarrow> [] | Some c \<Rightarrow> activated appsErr j c) pre) \<and>
       Register appsErr sch s tokens = Some (s @ added, Some e) \<and>
       (supportedServices k = None \<longrightarrow>
          e = unsupportedService k (names_iter sch) \<and> sublist k e \<and>
          (\<forall>n. supportedServices n \<noteq> None \<longrightarrow> sublist n e)) \<and>
       (supportedServices k \<noteq> None \<longrightarrow>
          (\<exists>ce. appsErr = Some ce \<and>
             e = failedToRegister ''apps'' (''failed to create apps tool: '' @ ce))) \<and>
       RegionTools \<notin> set added \<and>
       (\<forall>x\<in>set added. \<exists>j\<in>set pre. x \<in> set (serviceToolsets j)))"
proof -
  have ne: "tokens \<noteq> []" using assms(1) by auto
  then have p: "parseServiceFilters (if tokens = [] then default_iter sch else tokens) = Some m"
    using assms(5) by simp
  have mb: "m bad \<noteq> None"
    using parse_loop_holds [OF assms(1) assms(3) assms(2)] assms(5)
    by (simp add: parseServiceFilters_def)
  have d: "set (filter_iter sch) = dom m" using assms(6) by (simp add: range_order_def)
  let ?ok = "\<lambda>j. supportedServices j \<noteq> None \<and> (j = ''apps'' \<longrightarrow> appsErr = None)"
  have "bad \<in> set (filter_iter sch)" using mb d by blast
  then have "\<exists>j\<in>set (filter_iter sch). \<not> ?ok j" using assms(4) by blast
  then obtain pre k post where split: "filter_iter sch = pre @ k # post"
    and k: "\<not> ?ok k" and pre: "\<forall>j\<in>set pre. \<not> \<not> ?ok j"
    by (rule split_list_first_propE)
  from pre have pre_ok: "\<forall>j\<in>set pre. ?ok j" by blast
  have "k \<in> dom m" using split d by auto
  then obtain categories where mk: "m k = Some categories" by blast
  define added where
    "added = concat (map (\<lambda>j. case m j of None \<Rightarrow> [] | Some c \<Rightarrow> activated appsErr j c) pre)"
  obtain ce where ce: "supportedServices k = None \<or> (k = ''apps'' \<and> appsErr = Some ce)"
    using k by (cases appsErr) auto
  define e where "e = (if supportedServices k = None then unsupportedService k (names_iter sch)
            else failedToRegister ''apps'' (''failed to create apps tool: '' @ ce))"
  have pre_ok': "\<forall>j\<in>set pre. m j \<noteq> None \<longrightarrow> ?ok j" using pre_ok by blast
  have loop: "register_loop appsErr (names_iter sch) m s (filter_iter sch) = (s @ added, Some e)"
    unfolding split added_def e_def
    using pre_ok' mk ce by (rule register_loop_first_failure)
  have reg: "Register appsErr sch s tokens = Some (s @ added, Some e)"
    using Register_eq [OF p, of appsErr s] loop by simp
  have k1: "supportedServices k = None \<or> (k = ''apps'' \<and> appsErr \<noteq> None)"
    using ce by auto
  have e1: "supportedServices k = None \<longrightarrow>
          e = unsupportedService k (names_iter sch) \<and> sublist k e \<and>
          (\<forall>n. supportedServices n \<noteq> None \<longrightarrow> sublist n e)"
  proof
    assume u: "supportedServices k = None"
    then have ee: "e = unsupportedService k (names_iter sch)" by (simp add: e_def)
    have "sublist n e" if "supportedServices n \<noteq> None" for n
    proof -
      have "n \<in> set (names_iter sch)"
        using that assms(7) by (auto simp: range_order_def)
      then show ?thesis unfolding ee by (rule unsupportedService_names(2))
    qed
    then show "e = unsupportedService k (names_iter sch) \<and> sublist k e \<and>
          (\<forall>n. supportedServices n \<noteq> None \<longrightarrow> sublist n e)"
      using ee unsupportedService_names(1) [of k "names_iter sch"] by blast
  qed
  have e2: "supportedServices k \<noteq> None \<longrightarrow>
          (\<exists>ce. appsErr = Some ce \<and>
             e = failedToRegister ''apps'' (''failed to create apps tool: '' @ ce))"
  proof
    assume s: "supportedServices k \<noteq> None"
    then have "appsErr = Some ce" using ce by auto
    moreover have "e = failedToRegister ''apps'' (''failed to create apps tool: '' @ ce)"
      unfolding e_def by (rule if_not_P [OF s])
    ultimately show "\<exists>ce. appsErr = Some ce \<and>
             e = failedToRegister ''apps'' (''failed to create apps tool: '' @ ce)" by blast
  qed
  have own: "\<forall>x\<in>set added. \<exists>j\<in>set pre. x \<in> set (serviceToolsets j)"
  proof
    fix x assume "x \<in> set added"
    then obtain j where j: "j \<in> set pre"
      "x \<in> set (case m j of None \<Rightarrow> [] | Some c \<Rightarrow> activated appsErr j c)"
      unfolding added_def by auto
    show "\<exists>j\<in>set pre. x \<in> set (serviceToolsets j)"
    proof (cases "m j")
      case None
      then show ?thesis using j(2) by simp
    next
      case (Some c)
      then have "x \<in> set (activated appsErr j c)" using j(2) by simp
      then show ?thesis using j(1) activated_subset [of appsErr j c] by blast
    qed
  qed
  have nr: "RegionTools \<notin> set added"
    using own RegionTools_notin by blast
  have "\<exists>pre k post e added.
       filter_iter sch = pre @ k # post \<and>
       (\<forall>j\<in>set pre. supportedServices j \<noteq> None \<and> (j = ''apps'' \<longrightarrow> appsErr = None)) \<and>
       (supportedServices k = None \<or> (k = ''apps'' \<and> appsErr \<noteq> None)) \<and>
       added = concat (map (\<lambda>j. case m j of None \<Rightarrow> [] | Some c \<Rightarrow> activated appsErr j c) pre) \<and>
       Register appsErr sch s tokens = Some (s @ added, Some e) \<and>
       (supportedServices k = None \<longrightarrow>
          e = unsupportedService k (names_iter sch) \<and> sublist k e \<and>
          (\<forall>n. supportedServices n \<noteq> None \<longrightarrow> sublist n e)) \<and>
       (supportedServices k \<noteq> None \<longrightarrow>
          (\<exists>ce. appsErr = Some ce \<and>
             e = failedToRegister ''apps'' (''failed to create apps tool: '' @ ce))) \<and>
       RegionTools \<notin> set added \<and>
       (\<forall>x\<in>set added. \<exists>j\<in>set pre. x \<in> set (serviceToolsets j))"
    apply (rule exI [of _ pre], rule exI [of _ k], rule exI [of _ post], rule exI [of _ e],
        rule exI [of _ added])
    by (intro conjI) (fact split pre_ok k1 added_def reg e1 e2 nr own)+
  with mb show ?thesis by (rule conjI)
qed

theorem unknown_service_error_witness:
  "Register None \<lparr>default_iter = declaredOrder, filter_iter = [''bogus1'', ''droplets'', ''bogus2''],
                  names_iter = declaredOrder\<rparr> [] [''bogus1'', ''droplets'', ''bogus2:all'']
     = Some ([], Some (unsupportedService ''bogus1'' declaredOrder)) \<and>
   Register None \<lparr>default_iter = declaredOrder, filter_iter = [''droplets'', ''bogus2'', ''bogus1''],
                  names_iter = declaredOrder\<rparr> [] [''bogus1'', ''droplets'', ''bogus2:all'']
     = Some ([DropletTool], Some (unsupportedService ''bogus2'' declaredOrder)) \<and>
   sublist ''bogus2'' (unsupportedService ''bogus2'' declaredOrder) \<and>
   sublist ''marketplace'' (unsupportedService ''bogus2'' declaredOrder)"
proof -
  let ?tokens = "[''bogus1'', ''droplets'', ''bogus2:all'']"
  let ?a = "\<lparr>default_iter = declaredOrder, filter_iter = [''bogus1'', ''droplets'', ''bogus2''],
                  names_iter = declaredOrder\<rparr>"
  let ?b = "\<lparr>default_iter = declaredOrder, filter_iter = [''droplets'', ''bogus2'', ''bogus1''],
                  names_iter = declaredOrder\<rparr>"
  let ?m = "[''bogus1'' \<mapsto> [''basic''], ''droplets'' \<mapsto> [''basic''], ''bogus2'' \<mapsto> [''all'']]"
  have h1: "''bogus2:all'' \<in> set ?tokens" by simp
  have h2: "''bogus2:all'' = ''bogus2'' \<or> (\<exists>cat. cat \<noteq> [] \<and> ''bogus2:all'' = ''bogus2'' @ '':'' @ cat)"
    by (rule disjI2, rule exI [of _ "''all''"]) simp
  have h3: "CHR '':'' \<notin> set ''bogus2''" by simp
  have h4: "supportedServices ''bogus2'' = None" by (simp add: supportedServices_def)
  have h5: "parseServiceFilters ?tokens = Some ?m"
    by (simp add: parseServiceFilters_def parse_token_def slice_to_def slice_from_def Let_def)
  have h6a: "range_order ?m (filter_iter ?a)" by (auto simp: range_order_def)
  have h6b: "range_order ?m (filter_iter ?b)" by (auto simp: range_order_def)
  have h7a: "range_order supportedServices (names_iter ?a)" by (simp add: range_order_declaredOrder)
  have h7b: "range_order supportedServices (names_iter ?b)" by (simp add: range_order_declaredOrder)
  have u1: "supportedServices ''bogus1'' = None" by (simp add: supportedServices_def)
  have sd: "supportedServices ''droplets'' \<noteq> None" by (simp add: supportedServices_def)
  have ad: "activated None ''droplets'' [''basic''] = [DropletTool]"
    by (simp add: activated_only_basic)
  have one: "Register None ?a [] ?tokens = Some ([], Some (unsupportedService ''bogus1'' declaredOrder))"
  proof -
    from unknown_service_error [OF h1 h2 h3 h4 h5 h6a h7a, of None "[]"]
    obtain pre k post e added where
      split: "[''bogus1'', ''droplets'', ''bogus2''] = pre @ k # post"
      and pre: "\<forall>j\<in>set pre. supportedServices j \<noteq> None \<and> (j = ''apps'' \<longrightarrow> None = (None :: error option))"
      and add: "added = concat (map (\<lambda>j. case ?m j of None \<Rightarrow> [] | Some c \<Rightarrow> activated None j c) pre)"
      and reg: "Register None ?a [] ?tokens = Some ([] @ added, Some e)"
      and e: "supportedServices k = None \<longrightarrow> e = unsupportedService k (names_iter ?a) \<and> sublist k e \<and>
          (\<forall>n. supportedServices n \<noteq> None \<longrightarrow> sublist n e)"
      by auto
    have "pre = []"
    proof (cases pre)
      case Nil
      then show ?thesis .
    next
      case (Cons x xs)
      then have "x = ''bogus1''" using split by simp
      then show ?thesis using pre Cons u1 by simp
    qed
    then have "k = ''bogus1''" using split by simp
    then show ?thesis using reg e add u1 \<open>pre = []\<close> by simp
  qed
  have two: "Register None ?b [] ?tokens = Some ([DropletTool], Some (unsupportedService ''bogus2'' declaredOrder))
     \<and> sublist ''bogus2'' (unsupportedService ''bogus2'' declaredOrder)
     \<and> sublist ''marketplace'' (unsupportedService ''bogus2'' declaredOrder)"
  proof -
    from unknown_service_error [OF h1 h2 h3 h4 h5 h6b h7b, of None "[]"]
    obtain pre k post e added where
      split: "[''droplets'', ''bogus2'', ''bogus1''] = pre @ k # post"
      and pre: "\<forall>j\<in>set pre. supportedServices j \<noteq> None \<and> (j = ''apps'' \<longrightarrow> None = (None :: error option))"
      and k: "supportedServices k = None \<or> (k = ''apps'' \<and> None \<noteq> (None :: error option))"
      and add: "added = concat (map (\<lambda>j. case ?m j of None \<Rightarrow> [] | Some c \<Rightarrow> activated None j c) pre)"
      and reg: "Register None ?b [] ?tokens = Some ([] @ added, Some e)"
      and e: "supportedServices k = None \<longrightarrow> e = unsupportedService k (names_iter ?b) \<and> sublist k e \<and>
          (\<forall>n. supportedServices n \<noteq> None \<longrightarrow> sublist n e)"
      by auto
    from k have ku: "supportedServices k = None" by simp
    obtain x xs where c1: "pre = x # xs"
      using split ku sd by (cases pre) auto
    then have x: "x = ''droplets''" and r: "[''bogus2'', ''bogus1''] = xs @ k # post"
      using split by simp_all
    have "xs = []"
    proof (cases xs)
      case Nil
      then show ?thesis .
    next
      case (Cons y ys)
      then have "y = ''bogus2''" using r by simp
      then show ?thesis using pre c1 Cons h4 by simp
    qed
    then have kk: "k = ''bogus2''" and pp: "pre = [''droplets'']" using r c1 x by simp_all
    have "added = [DropletTool]" using add pp ad by simp
    moreover from e ku have ee: "e = unsupportedService k (names_iter ?b)" "sublist k e"
      and en: "\<And>n. supportedServices n \<noteq> None \<Longrightarrow> sublist n e"
      by auto
    have sm: "supportedServices ''marketplace'' \<noteq> None" by (simp add: supportedServices_def)
    have "e = unsupportedService ''bogus2'' declaredOrder" "sublist ''bogus2'' e"
      using ee kk by simp_all
    moreover have "sublist ''marketplace'' e"
      using sm by (rule en)
    ultimately show ?thesis using reg by simp
  qed
  show ?thesis using one two by (intro conjI) simp_all
qed

text \<open>
  C4 fails as it is stated, in three ways. The one token \<open>bogus:\<close> names a service that
  \<open>supportedServices\<close> does not hold, but its category is empty, so the parser adds no entry
  for it and \<open>Register\<close> returns no error. With two unsupported services the error names
  the one the iteration reaches first, not the other. And when the tool constructor of
  apps returns an error and the iteration reaches apps first, the error is that of apps
  and names no unsupported service.
\<close>

theorem unknown_service_error_counterexample:
  "strings_Index ''bogus:'' '':'' = 5 \<and> slice_to ''bogus:'' 5 = Some ''bogus'' \<and>
   slice_from ''bogus:'' 6 = Some [] \<and>
   supportedServices ''bogus'' = None \<and>
   parseServiceFilters [''bogus:''] = parseServiceFilters [] \<and>
   Register None \<lparr>default_iter = declaredOrder, filter_iter = [],
                  names_iter = declaredOrder\<rparr> [] [''bogus:'']
     = Some ([RegionTools], None) \<and>
   supportedServices ''bogus2'' = None \<and>
   Register None \<lparr>default_iter = declaredOrder, filter_iter = [''bogus1'', ''droplets'', ''bogus2''],
                  names_iter = declaredOrder\<rparr> [] [''bogus1'', ''droplets'', ''bogus2'']
     = Some ([], Some ''unsupported service: bogus1, supported services are: apps,networking,droplets,accounts,spaces,databases,marketplace,insights,doks'') \<and>
   \<not> sublist ''bogus2'' ''unsupported service: bogus1, supported services are: apps,networking,droplets,accounts,spaces,databases,marketplace,insights,doks'' \<and>
   Register (Some ''no token'') \<lparr>default_iter = declaredOrder, filter_iter = [''apps'', ''bogus''],
                  names_iter = declaredOrder\<rparr> [] [''apps'', ''bogus'']
     = Some ([], Some ''failed to register apps tools: failed to create apps tool: no token'') \<and>
   \<not> sublist ''bogus'' ''failed to register apps tools: failed to create apps tool: no token''"
  by (simp add: eval_defs sublist_Cons_right)

end
